theory Spec2Isabelle
  imports Complex_Main
begin

section \<open>Data model (types.ts)\<close>

text \<open>
  JavaScript numbers are modelled as follows: counters, health, durability and tile
  indices, which the program only ever adds, subtracts and compares, are \<open>int\<close>;
  pixel coordinates, velocities and the screen-shake magnitude are \<open>real\<close>
  (IEEE rounding is not modelled). Optional fields are \<open>option\<close> values.

  The handlers of App are functions from the state to the next state. A handler's
  in-place writes to the objects of the previous state (the player, a tile, a hostile's
  position) become the fields of the state it returns. A functional updater given to
  \<open>setGameState\<close> is queued: it runs after the handler has returned, and the queued
  updaters run in the order of their calls, the first on the state \<open>gameState\<close> the
  handler closes over. So a local variable that an updater writes still has its initial
  value in the statements of the handler that follow the call. Sound cues have no effect
  on the state and are left out.
\<close>

datatype GameStatus = MENU | PLAYING | WON | LOST

datatype TileType = AIR | DIRT | STONE | GOLD | SHARD | DIAMOND | GRASS

datatype EntityType = PLAYER | ZOMBIE | CREEPER

record Vector2 =
  vx :: real
  vy :: real

record Entity =
  ident :: string
  pos :: Vector2
  targetPos :: Vector2
  etype :: EntityType
  health :: int
  maxHealth :: int
  direction :: int
  isAttacking :: "bool option"
  attackCooldown :: "int option"
  damageCooldown :: "int option"

record Particle =
  ppos :: Vector2
  vel :: Vector2
  life :: int
  color :: string
  ptext :: "string option"

record Tile =
  ttype :: TileType
  durability :: int
  maxDurability :: int

record GameState =
  status :: GameStatus
  player :: Entity
  enemies :: "Entity list"
  grid :: "Tile list list"
  shardsCollected :: int
  goldCollected :: int
  diamondsCollected :: int
  camera :: Vector2
  selectedTile :: "Vector2 option"
  particles :: "Particle list"
  screenShake :: real

section \<open>Constants\<close>

definition GRID_WIDTH :: int where "GRID_WIDTH = 40"
definition GRID_HEIGHT :: int where "GRID_HEIGHT = 60"
definition TILE_SIZE :: real where "TILE_SIZE = 40"
definition VIEWPORT_WIDTH :: real where "VIEWPORT_WIDTH = 800"
definition VIEWPORT_HEIGHT :: real where "VIEWPORT_HEIGHT = 600"

fun TILE_DURABILITY :: "TileType \<Rightarrow> int" where
  "TILE_DURABILITY DIRT = 5"
| "TILE_DURABILITY GRASS = 5"
| "TILE_DURABILITY STONE = 15"
| "TILE_DURABILITY GOLD = 10"
| "TILE_DURABILITY SHARD = 12"
| "TILE_DURABILITY DIAMOND = 20"
| "TILE_DURABILITY AIR = 0"

fun COLORS :: "TileType \<Rightarrow> string" where
  "COLORS DIRT = ''#8b4513''"
| "COLORS GRASS = ''#228b22''"
| "COLORS STONE = ''#808080''"
| "COLORS GOLD = ''#ffd700''"
| "COLORS SHARD = ''#9370db''"
| "COLORS DIAMOND = ''#00ffff''"
| "COLORS AIR = ''transparent''"

definition INITIAL_PLAYER_HEALTH :: int where "INITIAL_PLAYER_HEALTH = 200"
definition SHARD_GOAL :: int where "SHARD_GOAL = 10"
definition GOLD_COUNT :: int where "GOLD_COUNT = 5"
definition DIAMOND_COUNT :: int where "DIAMOND_COUNT = 3"
definition ATTACK_COOLDOWN :: int where "ATTACK_COOLDOWN = 20"
definition SWORD_DAMAGE :: int where "SWORD_DAMAGE = 34"
definition CLICK_DAMAGE :: int where "CLICK_DAMAGE = 34"
definition ENEMY_DAMAGE :: int where "ENEMY_DAMAGE = 34"
definition DAMAGE_COOLDOWN :: int where "DAMAGE_COOLDOWN = 60"

section \<open>Numeric helpers\<close>

text \<open>
  \<open>Math.random()\<close> is an explicit source of draws: \<open>rnd k\<close> is the \<open>k\<close>-th value
  drawn during one handler call, and every function that draws takes the index of its
  first draw. \<open>Math.hypot\<close> is the Euclidean norm over the reals.
\<close>

type_synonym rand = "nat \<Rightarrow> real"

definition hypot :: "real \<Rightarrow> real \<Rightarrow> real" where
  "hypot a b = sqrt (a * a + b * b)"

text \<open>\<open>Math.atan2(y, x)\<close>, with \<open>atan2(0, 0) = 0\<close> as in JavaScript.\<close>

definition atan2 :: "real \<Rightarrow> real \<Rightarrow> real" where
  "atan2 b a =
     (if a > 0 then arctan (b / a)
      else if a < 0 \<and> b \<ge> 0 then arctan (b / a) + pi
      else if a < 0 then arctan (b / a) - pi
      else if b > 0 then pi / 2
      else if b < 0 then - pi / 2
      else 0)"

section \<open>Grid access\<close>

text \<open>
  \<open>grid[y][x]\<close> for indices the caller has already checked against the grid bounds.
  A write replaces the tile object stored in the cell.
\<close>

definition tile_at :: "Tile list list \<Rightarrow> int \<Rightarrow> int \<Rightarrow> Tile" where
  "tile_at g ty tx = g ! nat ty ! nat tx"

definition set_tile :: "Tile list list \<Rightarrow> int \<Rightarrow> int \<Rightarrow> Tile \<Rightarrow> Tile list list" where
  "set_tile g ty tx t = g[nat ty := (g ! nat ty)[nat tx := t]]"

definition wf_grid :: "Tile list list \<Rightarrow> bool" where
  "wf_grid g \<longleftrightarrow> length g = nat GRID_HEIGHT \<and> list_all (\<lambda>row. length row = nat GRID_WIDTH) g"

definition air_tile :: Tile where
  "air_tile = \<lparr>ttype = AIR, durability = 0, maxDurability = 0\<rparr>"

section \<open>Mining (second state update of handleCanvasClick)\<close>

definition spawnMiningParticles :: "int \<Rightarrow> int \<Rightarrow> string \<Rightarrow> rand \<Rightarrow> nat \<Rightarrow> Particle list" where
  "spawnMiningParticles tx ty c rnd k =
     map (\<lambda>i. \<lparr>ppos = \<lparr>vx = (real_of_int tx + 0.5) * TILE_SIZE, vy = (real_of_int ty + 0.5) * TILE_SIZE\<rparr>,
               vel = \<lparr>vx = (rnd (k + 2 * i) - 0.5) * 6, vy = (rnd (k + 2 * i + 1) - 0.5) * 6\<rparr>,
               life = 30, color = c, ptext = None\<rparr>) [0..<3]"

definition label_particle :: "int \<Rightarrow> int \<Rightarrow> string \<Rightarrow> string \<Rightarrow> Particle" where
  "label_particle tx ty c t =
     \<lparr>ppos = \<lparr>vx = (real_of_int tx + 0.5) * TILE_SIZE, vy = real_of_int ty * TILE_SIZE\<rparr>,
      vel = \<lparr>vx = 0, vy = - 1\<rparr>, life = 40, color = c, ptext = Some t\<rparr>"

text \<open>
  The loot branch taken when the durability has dropped to zero or below; it reads the
  tile's type before the type is overwritten with AIR.
\<close>

definition award :: "TileType \<Rightarrow> int \<Rightarrow> int \<Rightarrow> GameState \<Rightarrow> GameState" where
  "award tt tx ty s =
     (if tt = SHARD then
        (let s1 = s\<lparr>shardsCollected := shardsCollected s + 1\<rparr>;
             s2 = s1\<lparr>particles := particles s1 @ [label_particle tx ty (COLORS SHARD) ''+1 SHARD'']\<rparr>
         in if shardsCollected s2 \<ge> SHARD_GOAL then s2\<lparr>status := WON\<rparr> else s2)
      else if tt = GOLD then
        (let s1 = s\<lparr>goldCollected := goldCollected s + 1\<rparr>
         in s1\<lparr>particles := particles s1 @ [label_particle tx ty (COLORS GOLD) ''+1 GOLD'']\<rparr>)
      else if tt = DIAMOND then
        (let s1 = s\<lparr>diamondsCollected := diamondsCollected s + 1\<rparr>
         in s1\<lparr>particles := particles s1 @ [label_particle tx ty (COLORS DIAMOND) ''+1 DIAMOND'']\<rparr>)
      else s)"

definition mine :: "int \<Rightarrow> int \<Rightarrow> rand \<Rightarrow> nat \<Rightarrow> GameState \<Rightarrow> GameState" where
  "mine tx ty rnd k s =
     (let tile = tile_at (grid s) ty tx in
      if ttype tile \<noteq> AIR then
        (let tile1 = tile\<lparr>durability := durability tile - 8\<rparr>;
             s1 = s\<lparr>particles := particles s @ spawnMiningParticles tx ty (COLORS (ttype tile)) rnd k\<rparr>
         in if durability tile1 \<le> 0 then
              (let s2 = award (ttype tile) tx ty (s1\<lparr>screenShake := 5\<rparr>)
               in s2\<lparr>grid := set_tile (grid s2) ty tx (tile1\<lparr>ttype := AIR\<rparr>)\<rparr>)
            else s1\<lparr>grid := set_tile (grid s1) ty tx tile1\<rparr>)
      else s)"

section \<open>Combat\<close>

text \<open>The burst of five red particles pushed at a hit; each takes two draws.\<close>

definition hit_particles :: "Vector2 \<Rightarrow> rand \<Rightarrow> nat \<Rightarrow> Particle list" where
  "hit_particles p rnd k =
     map (\<lambda>i. \<lparr>ppos = \<lparr>vx = vx p + TILE_SIZE / 2, vy = vy p + TILE_SIZE / 2\<rparr>,
               vel = \<lparr>vx = (rnd (k + 2 * i) - 0.5) * 4, vy = (rnd (k + 2 * i + 1) - 0.5) * 4\<rparr>,
               life = 20, color = ''#ff0000'', ptext = None\<rparr>) [0..<5]"

text \<open>
  handleAttack: the \<open>map\<close> callback over the hostiles, which also pushes onto
  \<open>next.particles\<close>; the particle list and the draw index are threaded through.
\<close>

fun attack_enemies ::
  "Vector2 \<Rightarrow> rand \<Rightarrow> Entity list \<Rightarrow> Particle list \<Rightarrow> nat \<Rightarrow> Entity list \<times> Particle list \<times> nat" where
  "attack_enemies pp rnd [] ps k = ([], ps, k)"
| "attack_enemies pp rnd (e # es) ps k =
     (if hypot (vx pp - vx (pos e)) (vy pp - vy (pos e)) < TILE_SIZE * 1.5 then
        (case attack_enemies pp rnd es (ps @ hit_particles (pos e) rnd k) (k + 10) of
           (es', r) \<Rightarrow> (e\<lparr>health := health e - SWORD_DAMAGE\<rparr> # es', r))
      else
        (case attack_enemies pp rnd es ps k of (es', r) \<Rightarrow> (e # es', r)))"

definition handleAttack :: "rand \<Rightarrow> GameState \<Rightarrow> GameState" where
  "handleAttack rnd s =
     (if status s \<noteq> PLAYING \<or> (case attackCooldown (player s) of None \<Rightarrow> 0 | Some c \<Rightarrow> c) > 0 then s
      else
        (let p = (player s)\<lparr>isAttacking := Some True, attackCooldown := Some ATTACK_COOLDOWN\<rparr>
         in case attack_enemies (pos p) rnd (enemies s) (particles s) 0 of
              (es, ps, k) \<Rightarrow> s\<lparr>player := p, enemies := filter (\<lambda>e. health e > 0) es, particles := ps\<rparr>))"

text \<open>
  handleCanvasClick, first state update: the \<open>map\<close> callback over the hostiles. The
  last component is the value the updater writes to \<open>hitAnyEnemy\<close> when it runs.
\<close>

fun click_enemies ::
  "real \<Rightarrow> real \<Rightarrow> rand \<Rightarrow> Entity list \<Rightarrow> Particle list \<Rightarrow> nat \<Rightarrow> bool
     \<Rightarrow> Entity list \<times> Particle list \<times> nat \<times> bool" where
  "click_enemies mouseX mouseY rnd [] ps k hit = ([], ps, k, hit)"
| "click_enemies mouseX mouseY rnd (e # es) ps k hit =
     (if hypot (mouseX - (vx (pos e) + TILE_SIZE / 2)) (mouseY - (vy (pos e) + TILE_SIZE / 2))
           < TILE_SIZE * 0.8 then
        (case click_enemies mouseX mouseY rnd es (ps @ hit_particles (pos e) rnd k) (k + 10) True of
           (es', r) \<Rightarrow> (e\<lparr>health := health e - CLICK_DAMAGE\<rparr> # es', r))
      else
        (case click_enemies mouseX mouseY rnd es ps k hit of (es', r) \<Rightarrow> (e # es', r)))"

definition click_attack :: "real \<Rightarrow> real \<Rightarrow> rand \<Rightarrow> GameState \<Rightarrow> GameState \<times> nat \<times> bool" where
  "click_attack mouseX mouseY rnd s =
     (let initialEnemyCount = length (enemies s)
      in case click_enemies mouseX mouseY rnd (enemies s) (particles s) 0 False of
           (es, ps, k, hit) \<Rightarrow>
             (let s1 = s\<lparr>enemies := filter (\<lambda>e. health e > 0) es, particles := ps\<rparr>;
                  s2 = (if length (enemies s1) < initialEnemyCount
                        then s1\<lparr>player := (player s1)\<lparr>health :=
                                 min INITIAL_PLAYER_HEALTH (health (player s1) + 20)\<rparr>\<rparr>
                        else s1)
              in (s2, k, hit)))"

text \<open>
  handleCanvasClick. \<open>cx\<close>, \<open>cy\<close> are the pointer coordinates relative to the canvas
  (\<open>e.clientX - rect.left\<close>, \<open>e.clientY - rect.top\<close>). The handler declares
  \<open>let hitAnyEnemy = false\<close>, queues the attack update, and then tests \<open>hitAnyEnemy\<close>:
  the test reads the initial value, since the attack update has not run yet. The handler
  then decides from \<open>gameState\<close> whether to queue the mining update. Afterwards the
  attack update runs on the state, and the mining update, when queued, on its result.
\<close>

definition handleCanvasClick :: "real \<Rightarrow> real \<Rightarrow> rand \<Rightarrow> GameState \<Rightarrow> GameState" where
  "handleCanvasClick cx cy rnd s =
     (if status s \<noteq> PLAYING then s
      else
        (let mouseX = cx + vx (camera s); mouseY = cy + vy (camera s);
             hitAnyEnemy = False
         in case click_attack mouseX mouseY rnd s of
              (s1, k, written) \<Rightarrow>
                if hitAnyEnemy then s1
                else
                  (let tx = \<lfloor>mouseX / TILE_SIZE\<rfloor>; ty = \<lfloor>mouseY / TILE_SIZE\<rfloor>
                   in if tx < 0 \<or> tx \<ge> GRID_WIDTH \<or> ty < 0 \<or> ty \<ge> GRID_HEIGHT then s1
                      else
                        (let dst = hypot ((real_of_int tx + 0.5) * TILE_SIZE - (vx (pos (player s)) + TILE_SIZE / 2))
                                          ((real_of_int ty + 0.5) * TILE_SIZE - (vy (pos (player s)) + TILE_SIZE / 2))
                         in if dst < TILE_SIZE * 3.5 then mine tx ty rnd k s1 else s1))))"

section \<open>Simulation step\<close>

text \<open>
  checkCollision: the nested loops with their early \<open>return true\<close>; the tile is read
  only when the index is inside the grid.
\<close>

definition checkCollision :: "Tile list list \<Rightarrow> real \<Rightarrow> real \<Rightarrow> bool" where
  "checkCollision g px py =
     (let margin = 8;
          left = \<lfloor>(px + margin) / TILE_SIZE\<rfloor>; right = \<lfloor>(px + TILE_SIZE - margin) / TILE_SIZE\<rfloor>;
          top = \<lfloor>(py + margin) / TILE_SIZE\<rfloor>; bottom = \<lfloor>(py + TILE_SIZE - margin) / TILE_SIZE\<rfloor>
      in list_ex (\<lambda>y. list_ex (\<lambda>x.
            (y < 0 \<or> y \<ge> GRID_HEIGHT \<or> x < 0 \<or> x \<ge> GRID_WIDTH) \<or> ttype (tile_at g y x) \<noteq> AIR)
            [left..right]) [top..bottom])"

text \<open>
  The two guarded assignments of one movement step, towards the candidate coordinates
  \<open>nx\<close> and \<open>ny\<close>. The second test reads the position after the first assignment: for
  the player because \<open>player.pos.x\<close> has been updated, for a hostile because
  \<open>eNext\<close> is a shallow copy and \<open>eNext.pos\<close> is the object \<open>enemy.pos\<close>.
\<close>

definition try_move :: "Tile list list \<Rightarrow> real \<Rightarrow> real \<Rightarrow> Vector2 \<Rightarrow> Vector2" where
  "try_move g nx ny p =
     (let p1 = (if \<not> checkCollision g nx (vy p) then p\<lparr>vx := nx\<rparr> else p)
      in if \<not> checkCollision g (vx p1) ny then p1\<lparr>vy := ny\<rparr> else p1)"

definition tick_cooldowns :: "Entity \<Rightarrow> Entity" where
  "tick_cooldowns p =
     (let p1 = (case attackCooldown p of
                  Some c \<Rightarrow>
                    if c > 0 then
                      (let q = p\<lparr>attackCooldown := Some (c - 1)\<rparr>
                       in if c - 1 < ATTACK_COOLDOWN - 5 then q\<lparr>isAttacking := Some False\<rparr> else q)
                    else p
                | None \<Rightarrow> p)
      in case damageCooldown p1 of
           Some c \<Rightarrow> if c > 0 then p1\<lparr>damageCooldown := Some (c - 1)\<rparr> else p1
         | None \<Rightarrow> p1)"

definition move_player :: "string set \<Rightarrow> Tile list list \<Rightarrow> Entity \<Rightarrow> Entity" where
  "move_player keys g p =
     (let speed = 5;
          left = (''KeyA'' \<in> keys \<or> ''ArrowLeft'' \<in> keys);
          right = (''KeyD'' \<in> keys \<or> ''ArrowRight'' \<in> keys);
          up = (''KeyW'' \<in> keys \<or> ''ArrowUp'' \<in> keys);
          down = (''KeyS'' \<in> keys \<or> ''ArrowDown'' \<in> keys);
          dx = (if left then - speed else 0) + (if right then speed else 0);
          dy = (if up then - speed else 0) + (if down then speed else 0);
          p1 = (if left then p\<lparr>direction := - 1\<rparr> else p);
          p2 = (if right then p1\<lparr>direction := 1\<rparr> else p1)
      in p2\<lparr>pos := try_move g (vx (pos p2) + dx) (vy (pos p2) + dy) (pos p2)\<rparr>)"

definition advance_particle :: "Particle \<Rightarrow> Particle" where
  "advance_particle p =
     p\<lparr>ppos := \<lparr>vx = vx (ppos p) + vx (vel p), vy = vy (ppos p) + vy (vel p)\<rparr>,
       vel := \<lparr>vx = vx (vel p), vy = vy (vel p) + 0.2\<rparr>,
       life := life p - 1\<rparr>"

text \<open>The pursuit branch of the per-hostile callback (\<open>dst < 250\<close>).\<close>

definition steer :: "Tile list list \<Rightarrow> Vector2 \<Rightarrow> real \<Rightarrow> Entity \<Rightarrow> Entity" where
  "steer g pp dst e =
     (if dst < 250 then
        (let angle = atan2 (vy pp - vy (pos e)) (vx pp - vx (pos e));
             ex = vx (pos e) + cos angle * 1.5;
             ey = vy (pos e) + sin angle * 1.5;
             q = try_move g ex ey (pos e)
         in e\<lparr>pos := q, direction := (if vx pp > vx q then 1 else - 1)\<rparr>)
      else e)"

definition cooldown_clear :: "int option \<Rightarrow> bool" where
  "cooldown_clear c = (case c of None \<Rightarrow> True | Some n \<Rightarrow> n = 0)"

text \<open>
  The \<open>map\<close> callback over the hostiles in update. It mutates the player object, the
  screen shake and the particle list while it runs, so these are threaded through in
  list order together with the draw index.
\<close>

fun update_enemies ::
  "Tile list list \<Rightarrow> rand \<Rightarrow> Entity list \<Rightarrow> Entity \<Rightarrow> real \<Rightarrow> Particle list \<Rightarrow> nat
     \<Rightarrow> Entity list \<times> Entity \<times> real \<times> Particle list \<times> nat" where
  "update_enemies g rnd [] p sh ps k = ([], p, sh, ps, k)"
| "update_enemies g rnd (e # es) p sh ps k =
     (let dst = hypot (vx (pos p) - vx (pos e)) (vy (pos p) - vy (pos e));
          eNext = steer g (pos p) dst e
      in if dst < TILE_SIZE * 0.7 \<and> cooldown_clear (damageCooldown p) then
           (case update_enemies g rnd es
                   (p\<lparr>health := health p - ENEMY_DAMAGE, damageCooldown := Some DAMAGE_COOLDOWN\<rparr>)
                   10 (ps @ hit_particles (pos p) rnd k) (k + 10) of
              (es', r) \<Rightarrow> (eNext # es', r))
         else
           (case update_enemies g rnd es p sh ps k of (es', r) \<Rightarrow> (eNext # es', r)))"

text \<open>
  update: one tick. \<open>keys\<close> is the set of key codes held when the tick runs.
\<close>

definition update :: "string set \<Rightarrow> rand \<Rightarrow> GameState \<Rightarrow> GameState" where
  "update keys rnd s =
     (if status s \<noteq> PLAYING then s
      else
        (let p = move_player keys (grid s) (tick_cooldowns (player s));
             cam = \<lparr>vx = vx (pos p) - VIEWPORT_WIDTH / 2 + TILE_SIZE / 2,
                    vy = vy (pos p) - VIEWPORT_HEIGHT / 2 + TILE_SIZE / 2\<rparr>;
             sh = (if screenShake s > 0 then screenShake s * 0.9 else screenShake s);
             ps = filter (\<lambda>q. life q > 0) (map advance_particle (particles s))
         in case update_enemies (grid s) rnd (enemies s) p sh ps 0 of
              (es, p', sh', ps', k) \<Rightarrow>
                s\<lparr>status := (if health p' \<le> 0 then LOST else status s),
                  player := p', enemies := es, camera := cam,
                  particles := ps', screenShake := sh'\<rparr>))"


section \<open>World generation (initGame)\<close>

definition fill_type :: "int \<Rightarrow> TileType" where
  "fill_type y =
     (if y = 5 then GRASS else if y > 5 \<and> y < 10 then DIRT else if y \<ge> 10 then STONE else AIR)"

definition new_tile :: "TileType \<Rightarrow> Tile" where
  "new_tile tt = \<lparr>ttype = tt, durability = TILE_DURABILITY tt, maxDurability = TILE_DURABILITY tt\<rparr>"

definition fill_grid :: "Tile list list" where
  "fill_grid =
     map (\<lambda>y. map (\<lambda>x. new_tile (fill_type (int y))) [0..<nat GRID_WIDTH]) [0..<nat GRID_HEIGHT]"

text \<open>The two nested loops over \<open>dy\<close> and \<open>dx\<close> that carve one disc.\<close>

definition carve_cell :: "int \<Rightarrow> int \<Rightarrow> int \<Rightarrow> int \<Rightarrow> int \<Rightarrow> Tile list list \<Rightarrow> Tile list list" where
  "carve_cell cx cy radius dy dx g =
     (let nx = cx + dx; ny = cy + dy
      in if nx \<ge> 0 \<and> nx < GRID_WIDTH \<and> ny \<ge> 10 \<and> ny < GRID_HEIGHT then
           (if hypot (real_of_int dx) (real_of_int dy) \<le> real_of_int radius
            then set_tile g ny nx air_tile else g)
         else g)"

definition carve_disc :: "int \<Rightarrow> int \<Rightarrow> int \<Rightarrow> Tile list list \<Rightarrow> Tile list list" where
  "carve_disc cx cy radius g =
     fold (\<lambda>dy g1. fold (\<lambda>dx g2. carve_cell cx cy radius dy dx g2) [- radius..radius] g1)
          [- radius..radius] g"

definition walk_length :: "real \<Rightarrow> int" where
  "walk_length r = \<lfloor>r * 40\<rfloor> + 20"

definition disc_radius :: "real \<Rightarrow> int" where
  "disc_radius r = \<lfloor>r * 2\<rfloor> + 2"

text \<open>
  One walk: the first argument is the number of iterations the \<open>for\<close> loop over \<open>j\<close>
  still has; the \<open>break\<close> ends the walk when the centre leaves the carving region.
\<close>

fun worm :: "nat \<Rightarrow> int \<Rightarrow> int \<Rightarrow> rand \<Rightarrow> nat \<Rightarrow> Tile list list \<Rightarrow> Tile list list \<times> nat" where
  "worm 0 cx cy rnd k g = (g, k)"
| "worm (Suc n) cx cy rnd k g =
     (let radius = disc_radius (rnd k);
          g1 = carve_disc cx cy radius g;
          cx1 = cx + (\<lfloor>rnd (k + 1) * 5\<rfloor> - 2);
          cy1 = cy + (\<lfloor>rnd (k + 2) * 3\<rfloor> - 1)
      in if cx1 < 0 \<or> cx1 \<ge> GRID_WIDTH \<or> cy1 < 10 \<or> cy1 \<ge> GRID_HEIGHT then (g1, k + 3)
         else worm n cx1 cy1 rnd (k + 3) g1)"

fun caves :: "nat \<Rightarrow> rand \<Rightarrow> nat \<Rightarrow> Tile list list \<Rightarrow> Tile list list \<times> nat" where
  "caves 0 rnd k g = (g, k)"
| "caves (Suc n) rnd k g =
     (let cx = \<lfloor>rnd k * real_of_int GRID_WIDTH\<rfloor>;
          cy = \<lfloor>rnd (k + 1) * real_of_int (GRID_HEIGHT - 15)\<rfloor> + 15;
          len = walk_length (rnd (k + 2))
      in case worm (nat len) cx cy rnd (k + 3) g of (g1, k1) \<Rightarrow> caves n rnd k1 g1)"

text \<open>
  placeResource samples until \<open>count\<close> tiles are placed and has no bound on its attempts.
  The first argument bounds the number of attempts; \<open>None\<close> means the bound was not
  enough.
\<close>

fun placeResource ::
  "nat \<Rightarrow> TileType \<Rightarrow> int \<Rightarrow> int \<Rightarrow> int \<Rightarrow> rand \<Rightarrow> nat \<Rightarrow> Tile list list
     \<Rightarrow> (Tile list list \<times> nat) option" where
  "placeResource 0 tt count minY placed rnd k g = (if placed < count then None else Some (g, k))"
| "placeResource (Suc fuel) tt count minY placed rnd k g =
     (if placed < count then
        (let rx = \<lfloor>rnd k * real_of_int GRID_WIDTH\<rfloor>;
             ry = \<lfloor>rnd (k + 1) * real_of_int (GRID_HEIGHT - minY)\<rfloor> + minY
         in if ttype (tile_at g ry rx) = STONE \<or> ttype (tile_at g ry rx) = DIRT
            then placeResource fuel tt count minY (placed + 1) rnd (k + 2) (set_tile g ry rx (new_tile tt))
            else placeResource fuel tt count minY placed rnd (k + 2) g)
      else Some (g, k))"

definition generate_grid :: "nat \<Rightarrow> rand \<Rightarrow> (Tile list list \<times> nat) option" where
  "generate_grid fuel rnd =
     (case caves 15 rnd 0 fill_grid of
        (g1, k1) \<Rightarrow>
          (case placeResource fuel SHARD 15 12 0 rnd k1 g1 of
             None \<Rightarrow> None
           | Some (g2, k2) \<Rightarrow>
               (case placeResource fuel GOLD GOLD_COUNT 20 0 rnd k2 g2 of
                  None \<Rightarrow> None
                | Some (g3, k3) \<Rightarrow> placeResource fuel DIAMOND DIAMOND_COUNT 40 0 rnd k3 g3)))"




definition init_player :: Entity where
  "init_player =
     \<lparr>ident = ''player'',
      pos = \<lparr>vx = (real_of_int GRID_WIDTH / 2) * TILE_SIZE, vy = 4 * TILE_SIZE\<rparr>,
      targetPos = \<lparr>vx = (real_of_int GRID_WIDTH / 2) * TILE_SIZE, vy = 4 * TILE_SIZE\<rparr>,
      etype = PLAYER,
      health = INITIAL_PLAYER_HEALTH, maxHealth = INITIAL_PLAYER_HEALTH, direction = 1,
      isAttacking = Some False, attackCooldown = Some 0, damageCooldown = None\<rparr>"




section \<open>Notions used to state the properties\<close>

text \<open>The contact test of update: \<open>dist < TILE_SIZE * 0.7\<close> for a hostile and the player's position.\<close>

definition in_contact :: "Vector2 \<Rightarrow> Entity \<Rightarrow> bool" where
  "in_contact pp e \<longleftrightarrow> hypot (vx pp - vx (pos e)) (vy pp - vy (pos e)) < TILE_SIZE * 0.7"

text \<open>The effect of one contact hit on the player object.\<close>

definition hurt :: "Entity \<Rightarrow> Entity" where
  "hurt p = p\<lparr>health := health p - ENEMY_DAMAGE, damageCooldown := Some DAMAGE_COOLDOWN\<rparr>"

text \<open>The player object when the per-hostile loop of a tick starts.\<close>

definition moved_player :: "string set \<Rightarrow> GameState \<Rightarrow> Entity" where
  "moved_player keys s = move_player keys (grid s) (tick_cooldowns (player s))"

text \<open>A run of ticks, each with the keys held and the draws of that tick.\<close>

fun ticks :: "(string set \<times> rand) list \<Rightarrow> GameState \<Rightarrow> GameState" where
  "ticks [] s = s"
| "ticks ((keys, rnd) # ins) s = ticks ins (update keys rnd s)"

subsection \<open>Sample states\<close>

definition demo_enemy :: "real \<Rightarrow> real \<Rightarrow> int \<Rightarrow> Entity" where
  "demo_enemy ex ey h =
     \<lparr>ident = ''enemy-0'', pos = \<lparr>vx = ex, vy = ey\<rparr>, targetPos = \<lparr>vx = 0, vy = 0\<rparr>,
      etype = ZOMBIE, health = h, maxHealth = 100, direction = 1,
      isAttacking = None, attackCooldown = None, damageCooldown = None\<rparr>"

text \<open>
  A game in progress on the freshly filled grid: the player stands at its start
  position (800, 160) with the camera centred on it.
\<close>

definition demo_state :: "int option \<Rightarrow> int \<Rightarrow> Entity list \<Rightarrow> GameState" where
  "demo_state cd h es =
     \<lparr>status = PLAYING,
      player = init_player\<lparr>health := h, damageCooldown := cd\<rparr>,
      enemies = es, grid = fill_grid,
      shardsCollected = 0, goldCollected = 0, diamondsCollected = 0,
      camera = \<lparr>vx = 420, vy = - 120\<rparr>, selectedTile = None, particles = [], screenShake = 0\<rparr>"

definition half :: rand where
  "half = (\<lambda>_. 1 / 2)"

text \<open>
  A hostile wedged against the grass row right under the player's start position: each of
  its candidate moves collides, so it stays in contact.
\<close>

definition stuck_enemy :: Entity where
  "stuck_enemy = (demo_enemy 800 180 100)\<lparr>direction := - 1\<rparr>"

definition cooling_state :: "int \<Rightarrow> GameState" where
  "cooling_state c = demo_state (Some c) 166 [stuck_enemy]"

text \<open>The hit test of a pointer press at world coordinates \<open>(mouseX, mouseY)\<close>.\<close>

definition in_click :: "real \<Rightarrow> real \<Rightarrow> Entity \<Rightarrow> bool" where
  "in_click mouseX mouseY e \<longleftrightarrow>
     hypot (mouseX - (vx (pos e) + TILE_SIZE / 2)) (mouseY - (vy (pos e) + TILE_SIZE / 2)) < TILE_SIZE * 0.8"

text \<open>The hit test of the melee attack.\<close>

definition in_reach :: "Vector2 \<Rightarrow> Entity \<Rightarrow> bool" where
  "in_reach pp e \<longleftrightarrow> hypot (vx pp - vx (pos e)) (vy pp - vy (pos e)) < TILE_SIZE * 1.5"

text \<open>The particles pushed at a hit: red, life 20, no label. Mining particles have life 30 and
  the tile's colour; label particles have life 40 and a text.\<close>

definition is_hit_particle :: "Particle \<Rightarrow> bool" where
  "is_hit_particle q \<longleftrightarrow> color q = ''#ff0000'' \<and> life q = 20 \<and> ptext q = None"

text \<open>What the callback of the pointer attack returns for one hostile.\<close>

definition click_damage :: "real \<Rightarrow> real \<Rightarrow> Entity \<Rightarrow> Entity" where
  "click_damage mouseX mouseY e =
     (if in_click mouseX mouseY e then e\<lparr>health := health e - CLICK_DAMAGE\<rparr> else e)"

text \<open>What the callback of the melee attack returns for one hostile.\<close>

definition sword_damage :: "Vector2 \<Rightarrow> Entity \<Rightarrow> Entity" where
  "sword_damage pp e = (if in_reach pp e then e\<lparr>health := health e - SWORD_DAMAGE\<rparr> else e)"

text \<open>Two hostiles with 34 health each at one spot, in reach of a single press.\<close>

definition pair_state :: GameState where
  "pair_state = demo_state None 100 [demo_enemy 800 180 34, demo_enemy 800 180 34]"

text \<open>The test \<open>next.enemies.length < initialEnemyCount\<close> of the pointer attack.\<close>

definition some_killed :: "real \<Rightarrow> real \<Rightarrow> Entity list \<Rightarrow> bool" where
  "some_killed mx my es \<longleftrightarrow>
     length (filter (\<lambda>e. health e > 0) (map (click_damage mx my) es)) < length es"

text \<open>One hostile with 34 health next to a player with 190 health.\<close>

definition capped_state :: GameState where
  "capped_state = demo_state None 190 [demo_enemy 800 180 34]"





text \<open>Nine shards collected, and a SHARD tile already hit once right under the player.\<close>

definition shard_state :: GameState where
  "shard_state =
     (demo_state None 200 [])
       \<lparr>grid := set_tile fill_grid 5 20 \<lparr>ttype = SHARD, durability = 4, maxDurability = 12\<rparr>,
        shardsCollected := 9\<rparr>"


text \<open>The same state with a hostile standing on that tile, under the pointer.\<close>

definition shard_hit_state :: GameState where
  "shard_hit_state = shard_state\<lparr>enemies := [demo_enemy 800 200 100]\<rparr>"


text \<open>Following the spec's words: the tile indices covered by a body at pixel position \<open>(px, py)\<close>,
  a square of one tile size shrunk inwards by the margin of 8 pixels on each side.\<close>

definition covered :: "real \<Rightarrow> real \<Rightarrow> int \<Rightarrow> int \<Rightarrow> bool" where
  "covered px py tx ty \<longleftrightarrow>
     \<lfloor>(px + 8) / TILE_SIZE\<rfloor> \<le> tx \<and> tx \<le> \<lfloor>(px + TILE_SIZE - 8) / TILE_SIZE\<rfloor>
     \<and> \<lfloor>(py + 8) / TILE_SIZE\<rfloor> \<le> ty \<and> ty \<le> \<lfloor>(py + TILE_SIZE - 8) / TILE_SIZE\<rfloor>"

text \<open>Following the spec's words: a tile index is solid when it is outside the grid bounds or
  holds a tile whose type is not AIR.\<close>

definition tile_solid :: "Tile list list \<Rightarrow> int \<Rightarrow> int \<Rightarrow> bool" where
  "tile_solid g tx ty \<longleftrightarrow>
     (ty < 0 \<or> ty \<ge> GRID_HEIGHT \<or> tx < 0 \<or> tx \<ge> GRID_WIDTH) \<or> ttype (tile_at g ty tx) \<noteq> AIR"

text \<open>The collision query at a position.\<close>

definition collides :: "Tile list list \<Rightarrow> Vector2 \<Rightarrow> bool" where
  "collides g p = checkCollision g (vx p) (vy p)"

text \<open>A hostile in the open sky straight above the spot the player steps to.\<close>

definition chase_state :: GameState where
  "chase_state = demo_state None 200 [demo_enemy 805 100 100]"



text \<open>A (row, column) index inside the grid.\<close>

definition in_grid :: "int \<Rightarrow> int \<Rightarrow> bool" where
  "in_grid ty tx \<longleftrightarrow> 0 \<le> ty \<and> ty < GRID_HEIGHT \<and> 0 \<le> tx \<and> tx < GRID_WIDTH"

text \<open>What carving may do to a grid: the dimensions stay, rows 0..9 stay as they are, and a tile
  that changes becomes the AIR tile \<open>{AIR, 0, 0}\<close>.\<close>

definition only_carved :: "Tile list list \<Rightarrow> Tile list list \<Rightarrow> bool" where
  "only_carved g g' \<longleftrightarrow>
     wf_grid g' \<and>
     (\<forall>y x. in_grid y x \<longrightarrow>
        (y < 10 \<longrightarrow> tile_at g' y x = tile_at g y x)
        \<and> (tile_at g' y x = tile_at g y x \<or> tile_at g' y x = air_tile))"

text \<open>Every draw lies in the range of \<open>Math.random()\<close>.\<close>

definition unit_draws :: "rand \<Rightarrow> bool" where
  "unit_draws rnd \<longleftrightarrow> (\<forall>i. 0 \<le> rnd i \<and> rnd i < 1)"

text \<open>The (row, column) placeResource samples with the draws \<open>k\<close> and \<open>k + 1\<close>.\<close>

definition sample :: "rand \<Rightarrow> int \<Rightarrow> nat \<Rightarrow> int \<times> int" where
  "sample rnd minY k =
     (\<lfloor>rnd (k + 1) * real_of_int (GRID_HEIGHT - minY)\<rfloor> + minY, \<lfloor>rnd k * real_of_int GRID_WIDTH\<rfloor>)"

text \<open>A sequence of draws for which generation returns: every walk starts at column 0 and
  leaves the grid after its first disc, and the 23 resource samples fall on 23 different
  stone tiles of the bottom row.\<close>

definition gen_draws :: rand where
  "gen_draws k =
     (if k < 90 then 0
      else if k < 136 then (if even k then (real k - 87) / 80 else 79 / 80)
      else 1 / 2)"

text \<open>The positions a walk may carve from: inside the grid, row 10 or below.\<close>

definition in_region :: "int \<Rightarrow> int \<Rightarrow> bool" where
  "in_region cx cy \<longleftrightarrow> 0 \<le> cx \<and> cx < GRID_WIDTH \<and> 10 \<le> cy \<and> cy < GRID_HEIGHT"

text \<open>The tile at row \<open>y\<close>, column \<open>x\<close> passes the distance test \<open>Math.hypot(dx, dy) <= radius\<close> of a disc.\<close>

definition in_disc :: "int \<Rightarrow> int \<Rightarrow> int \<times> int \<times> int \<Rightarrow> bool" where
  "in_disc y x d \<longleftrightarrow>
     (case d of (cx, cy, r) \<Rightarrow> hypot (real_of_int (x - cx)) (real_of_int (y - cy)) \<le> real_of_int r)"

text \<open>Carving a list of discs one after the other.\<close>

definition carve_all :: "(int \<times> int \<times> int) list \<Rightarrow> Tile list list \<Rightarrow> Tile list list" where
  "carve_all ds g = fold (\<lambda>(cx, cy, r). carve_disc cx cy r) ds g"

text \<open>
  The discs one walk carves, in order, each as (centre column, centre row, radius). The loop
  is that of \<open>worm\<close>: same draws, same drift, same \<open>break\<close>; it records each disc instead of
  carving it.
\<close>

fun walk_discs :: "nat \<Rightarrow> int \<Rightarrow> int \<Rightarrow> rand \<Rightarrow> nat \<Rightarrow> (int \<times> int \<times> int) list" where
  "walk_discs 0 cx cy rnd k = []"
| "walk_discs (Suc n) cx cy rnd k =
     (cx, cy, disc_radius (rnd k)) #
       (let cx1 = cx + (\<lfloor>rnd (k + 1) * 5\<rfloor> - 2); cy1 = cy + (\<lfloor>rnd (k + 2) * 3\<rfloor> - 1)
        in if 0 \<le> cx1 \<and> cx1 < GRID_WIDTH \<and> 10 \<le> cy1 \<and> cy1 < GRID_HEIGHT
           then walk_discs n cx1 cy1 rnd (k + 3) else [])"

text \<open>
  The walks of the cave loop, in order, each as its list of discs: start column, start row and
  length are the draws \<open>k\<close>, \<open>k + 1\<close> and \<open>k + 2\<close>, and the next walk starts drawing where this one
  stopped.
\<close>

fun cave_walks :: "nat \<Rightarrow> rand \<Rightarrow> nat \<Rightarrow> (int \<times> int \<times> int) list list" where
  "cave_walks 0 rnd k = []"
| "cave_walks (Suc w) rnd k =
     (let ds = walk_discs (nat (walk_length (rnd (k + 2))))
                 \<lfloor>rnd k * real_of_int GRID_WIDTH\<rfloor>
                 (\<lfloor>rnd (k + 1) * real_of_int (GRID_HEIGHT - 15)\<rfloor> + 15) rnd (k + 3)
      in ds # cave_walks w rnd (k + 3 + 3 * length ds))"

text \<open>A disc of radius 2 or 3 whose centre lies in the carving region.\<close>

definition walk_disc_ok :: "int \<times> int \<times> int \<Rightarrow> bool" where
  "walk_disc_ok d \<longleftrightarrow> (case d of (cx, cy, r) \<Rightarrow> (r = 2 \<or> r = 3) \<and> in_region cx cy)"

text \<open>The grid positions that hold a tile of the given type.\<close>

definition ore_cells :: "TileType \<Rightarrow> Tile list list \<Rightarrow> (int \<times> int) set" where
  "ore_cells tt g = {(y, x). in_grid y x \<and> ttype (tile_at g y x) = tt}"

section \<open>Auxiliary lemmas\<close>

lemma hypot_less_iff: "0 < r \<Longrightarrow> hypot a b < r \<longleftrightarrow> a * a + b * b < r * r"
  unfolding hypot_def
  by (metis abs_of_pos real_sqrt_abs2 real_sqrt_less_iff)

lemma fill_tile:
  "0 \<le> ty \<Longrightarrow> ty < 60 \<Longrightarrow> 0 \<le> tx \<Longrightarrow> tx < 40 \<Longrightarrow> tile_at fill_grid ty tx = new_tile (fill_type ty)"
  by (simp add: tile_at_def fill_grid_def GRID_WIDTH_def GRID_HEIGHT_def)

subsection \<open>The per-hostile loop of a tick\<close>

lemma ue_Cons_snd:
  "snd (update_enemies g rnd (e # es) p sh ps k) =
     (if in_contact (pos p) e \<and> cooldown_clear (damageCooldown p)
      then snd (update_enemies g rnd es (hurt p) 10 (ps @ hit_particles (pos p) rnd k) (k + 10))
      else snd (update_enemies g rnd es p sh ps k))"
  by (simp add: Let_def case_prod_beta in_contact_def hurt_def)

lemma ue_Cons_fst:
  "fst (update_enemies g rnd (e # es) p sh ps k) =
     steer g (pos p) (hypot (vx (pos p) - vx (pos e)) (vy (pos p) - vy (pos e))) e #
     (if in_contact (pos p) e \<and> cooldown_clear (damageCooldown p)
      then fst (update_enemies g rnd es (hurt p) 10 (ps @ hit_particles (pos p) rnd k) (k + 10))
      else fst (update_enemies g rnd es p sh ps k))"
  by (simp add: Let_def case_prod_beta in_contact_def hurt_def)

lemma hurt_blocks: "\<not> cooldown_clear (damageCooldown (hurt p))"
  by (simp add: hurt_def cooldown_clear_def DAMAGE_COOLDOWN_def)

lemma hurt_pos [simp]: "pos (hurt p) = pos p"
  by (simp add: hurt_def)

lemma hurt_health [simp]: "health (hurt p) = health p - ENEMY_DAMAGE"
  by (simp add: hurt_def)

lemma hurt_maxHealth [simp]: "maxHealth (hurt p) = maxHealth p"
  by (simp add: hurt_def)

lemma hurt_damage [simp]: "damageCooldown (hurt p) = Some DAMAGE_COOLDOWN"
  by (simp add: hurt_def)

text \<open>While the cooldown is not clear, the loop leaves the player, the shake and the particles alone.\<close>

lemma ue_blocked_snd:
  "\<not> cooldown_clear (damageCooldown p) \<Longrightarrow> snd (update_enemies g rnd es p sh ps k) = (p, sh, ps, k)"
  by (induction es) (simp_all add: ue_Cons_snd del: update_enemies.simps(2))

lemma ue_player:
  "fst (snd (update_enemies g rnd es p sh ps k)) =
     (if cooldown_clear (damageCooldown p) \<and> (\<exists>e\<in>set es. in_contact (pos p) e) then hurt p else p)"
proof (induction es arbitrary: sh ps k)
  case Nil
  show ?case by simp
next
  case (Cons e es)
  show ?case
  proof (cases "in_contact (pos p) e \<and> cooldown_clear (damageCooldown p)")
    case True
    have "snd (update_enemies g rnd (e # es) p sh ps k) =
          snd (update_enemies g rnd es (hurt p) 10 (ps @ hit_particles (pos p) rnd k) (k + 10))"
      using True by (simp only: ue_Cons_snd if_True simp_thms)
    also have "\<dots> = (hurt p, 10, ps @ hit_particles (pos p) rnd k, k + 10)"
      by (rule ue_blocked_snd [OF hurt_blocks])
    finally have "fst (snd (update_enemies g rnd (e # es) p sh ps k)) = hurt p"
      by (simp only: fst_conv)
    moreover have "\<exists>e'\<in>set (e # es). in_contact (pos p) e'"
      using True by (simp del: update_enemies.simps)
    ultimately show ?thesis
      using True by (simp only: if_True simp_thms)
  next
    case False
    have "snd (update_enemies g rnd (e # es) p sh ps k) = snd (update_enemies g rnd es p sh ps k)"
      using False by (simp only: ue_Cons_snd if_False simp_thms)
    then have "fst (snd (update_enemies g rnd (e # es) p sh ps k)) =
      (if cooldown_clear (damageCooldown p) \<and> (\<exists>e\<in>set es. in_contact (pos p) e) then hurt p else p)"
      by (simp only: Cons.IH)
    moreover have "cooldown_clear (damageCooldown p) \<and> (\<exists>e'\<in>set (e # es). in_contact (pos p) e')
       \<longleftrightarrow> cooldown_clear (damageCooldown p) \<and> (\<exists>e\<in>set es. in_contact (pos p) e)"
      using False by (auto simp del: update_enemies.simps)
    ultimately show ?thesis by (simp only:)
  qed
qed

lemma ue_enemies:
  "fst (update_enemies g rnd es p sh ps k) =
     map (\<lambda>e. steer g (pos p) (hypot (vx (pos p) - vx (pos e)) (vy (pos p) - vy (pos e))) e) es"
proof (induction es arbitrary: p sh ps k)
  case Nil
  show ?case by simp
next
  case (Cons e es)
  show ?case
    by (simp add: ue_Cons_fst Cons.IH del: update_enemies.simps(2))
qed

subsection \<open>One tick\<close>

lemma update_player:
  "status s = PLAYING \<Longrightarrow>
   player (update keys rnd s) =
     (if cooldown_clear (damageCooldown (moved_player keys s)) \<and>
         (\<exists>e\<in>set (enemies s). in_contact (pos (moved_player keys s)) e)
      then hurt (moved_player keys s) else moved_player keys s)"
proof -
  assume "status s = PLAYING"
  then have "player (update keys rnd s) =
    fst (snd (update_enemies (grid s) rnd (enemies s) (moved_player keys s)
      (if screenShake s > 0 then screenShake s * 0.9 else screenShake s)
      (filter (\<lambda>q. life q > 0) (map advance_particle (particles s))) 0))"
    by (simp add: update_def Let_def case_prod_beta moved_player_def del: update_enemies.simps)
  then show ?thesis by (simp only: ue_player)
qed

lemma update_enemies_eq:
  "status s = PLAYING \<Longrightarrow>
   enemies (update keys rnd s) =
     map (\<lambda>e. steer (grid s) (pos (moved_player keys s))
            (hypot (vx (pos (moved_player keys s)) - vx (pos e)) (vy (pos (moved_player keys s)) - vy (pos e))) e)
         (enemies s)"
  by (simp add: update_def Let_def case_prod_beta moved_player_def ue_enemies del: update_enemies.simps)

lemma update_status:
  "status s = PLAYING \<Longrightarrow>
   status (update keys rnd s) = (if health (player (update keys rnd s)) \<le> 0 then LOST else PLAYING)"
  by (simp add: update_def Let_def case_prod_beta del: update_enemies.simps)

lemma update_frame:
  "grid (update keys rnd s) = grid s \<and> shardsCollected (update keys rnd s) = shardsCollected s
   \<and> goldCollected (update keys rnd s) = goldCollected s
   \<and> diamondsCollected (update keys rnd s) = diamondsCollected s"
  by (simp add: update_def Let_def case_prod_beta del: update_enemies.simps)

lemma update_idle: "status s \<noteq> PLAYING \<Longrightarrow> update keys rnd s = s"
  by (simp add: update_def)

lemma tick_cooldowns_health [simp]: "health (tick_cooldowns p) = health p"
  by (simp add: tick_cooldowns_def Let_def split: option.splits)

lemma tick_cooldowns_maxHealth [simp]: "maxHealth (tick_cooldowns p) = maxHealth p"
  by (simp add: tick_cooldowns_def Let_def split: option.splits)

lemma tick_cooldowns_pos [simp]: "pos (tick_cooldowns p) = pos p"
  by (simp add: tick_cooldowns_def Let_def split: option.splits)

lemma tick_cooldowns_damage:
  "damageCooldown (tick_cooldowns p) =
     (case damageCooldown p of None \<Rightarrow> None | Some c \<Rightarrow> if c > 0 then Some (c - 1) else Some c)"
  by (simp add: tick_cooldowns_def Let_def split: option.splits)

lemma move_player_health [simp]: "health (move_player keys g p) = health p"
  by (simp add: move_player_def Let_def)

lemma move_player_maxHealth [simp]: "maxHealth (move_player keys g p) = maxHealth p"
  by (simp add: move_player_def Let_def)

lemma move_player_damage [simp]: "damageCooldown (move_player keys g p) = damageCooldown p"
  by (simp add: move_player_def Let_def)

lemma moved_player_health [simp]: "health (moved_player keys s) = health (player s)"
  by (simp add: moved_player_def)

lemma moved_player_maxHealth [simp]: "maxHealth (moved_player keys s) = maxHealth (player s)"
  by (simp add: moved_player_def)

lemma moved_player_damage:
  "damageCooldown (moved_player keys s) =
     (case damageCooldown (player s) of None \<Rightarrow> None | Some c \<Rightarrow> if c > 0 then Some (c - 1) else Some c)"
  by (simp add: moved_player_def tick_cooldowns_damage)

lemma tick_cooling:
  assumes "status s = PLAYING" and "damageCooldown (player s) = Some c" and "2 \<le> c"
    and "0 < health (player s)"
  shows "health (player (update keys rnd s)) = health (player s)
       \<and> damageCooldown (player (update keys rnd s)) = Some (c - 1)
       \<and> status (update keys rnd s) = PLAYING"
proof -
  have d: "damageCooldown (moved_player keys s) = Some (c - 1)"
    using assms by (simp add: moved_player_damage)
  then have "\<not> cooldown_clear (damageCooldown (moved_player keys s))"
    using assms by (simp add: cooldown_clear_def)
  then have p: "player (update keys rnd s) = moved_player keys s"
    using assms by (simp add: update_player)
  show ?thesis
    using assms d by (simp add: p update_status)
qed

lemma ticks_cooling:
  assumes "status s = PLAYING" and "damageCooldown (player s) = Some c"
    and "int (length ins) < c" and "0 < health (player s)"
  shows "health (player (ticks ins s)) = health (player s)
       \<and> damageCooldown (player (ticks ins s)) = Some (c - int (length ins))
       \<and> status (ticks ins s) = PLAYING"
  using assms
proof (induction ins arbitrary: s c)
  case Nil
  then show ?case by simp
next
  case (Cons i ins)
  obtain keys rnd where i: "i = (keys, rnd)" by (cases i)
  have c2: "2 \<le> c" using Cons.prems by simp
  note st = tick_cooling [OF Cons.prems(1) Cons.prems(2) c2 Cons.prems(4), of keys rnd]
  have "health (player (ticks ins (update keys rnd s))) = health (player (update keys rnd s))
       \<and> damageCooldown (player (ticks ins (update keys rnd s))) = Some (c - 1 - int (length ins))
       \<and> status (ticks ins (update keys rnd s)) = PLAYING"
    using st Cons.prems by (intro Cons.IH) simp_all
  then show ?case using st by (simp add: i algebra_simps)
qed

lemma tick_rearm:
  assumes "status s = PLAYING" and "damageCooldown (player s) = Some 1"
    and "\<exists>e\<in>set (enemies s). in_contact (pos (moved_player keys s)) e"
  shows "health (player (update keys rnd s)) = health (player s) - ENEMY_DAMAGE
       \<and> damageCooldown (player (update keys rnd s)) = Some DAMAGE_COOLDOWN"
proof -
  have "cooldown_clear (damageCooldown (moved_player keys s))"
    using assms by (simp add: moved_player_damage cooldown_clear_def)
  then show ?thesis using assms by (simp add: update_player)
qed

subsection \<open>Movement without keys; the sample states\<close>

lemma try_move_same: "try_move g (vx p) (vy p) p = p"
  by (simp add: try_move_def Let_def)

lemma moved_player_idle_pos: "pos (moved_player {} s) = pos (player s)"
  by (simp add: moved_player_def move_player_def Let_def try_move_same)

lemma demo_player_pos: "pos (player (demo_state cd h es)) = \<lparr>vx = 800, vy = 160\<rparr>"
  by (simp add: demo_state_def init_player_def GRID_WIDTH_def TILE_SIZE_def)

lemma demo_contact: "in_contact \<lparr>vx = 800, vy = 160\<rparr> (demo_enemy 800 180 h)"
  by (simp add: in_contact_def demo_enemy_def hypot_less_iff TILE_SIZE_def)

subsection \<open>A hostile that stays in contact\<close>

lemma fill_collision_800_180: "checkCollision fill_grid 800 180"
  by (simp add: checkCollision_def TILE_SIZE_def GRID_WIDTH_def GRID_HEIGHT_def Let_def upto.simps
      fill_tile new_tile_def fill_type_def)

lemma fill_collision_800_1785: "checkCollision fill_grid 800 (357 / 2)"
  by (simp add: checkCollision_def TILE_SIZE_def GRID_WIDTH_def GRID_HEIGHT_def Let_def upto.simps
      fill_tile new_tile_def fill_type_def)

lemma stuck_enemy_steer: "steer fill_grid \<lparr>vx = 800, vy = 160\<rparr> d stuck_enemy = stuck_enemy"
  by (simp add: steer_def stuck_enemy_def demo_enemy_def atan2_def Let_def try_move_def
      fill_collision_800_180 fill_collision_800_1785)

lemma try_move_same_rec: "try_move g a b \<lparr>vx = a, vy = b\<rparr> = \<lparr>vx = a, vy = b\<rparr>"
  using try_move_same [of g "\<lparr>vx = a, vy = b\<rparr>"] by simp

lemma update_playing:
  assumes "status s = PLAYING"
  shows "update keys rnd s =
    (case update_enemies (grid s) rnd (enemies s) (moved_player keys s)
            (if screenShake s > 0 then screenShake s * 0.9 else screenShake s)
            (filter (\<lambda>q. life q > 0) (map advance_particle (particles s))) 0 of
       (es, p', sh', ps', k) \<Rightarrow>
         s\<lparr>status := (if health p' \<le> 0 then LOST else status s),
           player := p', enemies := es,
           camera := \<lparr>vx = vx (pos (moved_player keys s)) - VIEWPORT_WIDTH / 2 + TILE_SIZE / 2,
                       vy = vy (pos (moved_player keys s)) - VIEWPORT_HEIGHT / 2 + TILE_SIZE / 2\<rparr>,
           particles := ps', screenShake := sh'\<rparr>)"
  using assms by (simp add: update_def Let_def moved_player_def del: update_enemies.simps)

lemma cooling_tick:
  assumes "2 \<le> c"
  shows "update {} rnd (cooling_state c) = cooling_state (c - 1)"
proof -
  let ?s = "cooling_state c"
  have mp: "moved_player {} ?s = (player ?s)\<lparr>damageCooldown := Some (c - 1)\<rparr>"
    using assms
    by (simp add: moved_player_def cooling_state_def demo_state_def init_player_def tick_cooldowns_def
        move_player_def Let_def try_move_same_rec)
  have blocked: "\<not> cooldown_clear (damageCooldown (moved_player {} ?s))"
    using assms by (simp add: mp cooldown_clear_def)
  have pp: "pos (moved_player {} ?s) = \<lparr>vx = 800, vy = 160\<rparr>"
    by (simp only: moved_player_idle_pos cooling_state_def demo_player_pos)
  have ue1: "fst (update_enemies fill_grid rnd [stuck_enemy] (moved_player {} ?s) 0 [] 0) = [stuck_enemy]"
    by (simp only: ue_enemies pp list.map stuck_enemy_steer)
  have ue2: "snd (update_enemies fill_grid rnd [stuck_enemy] (moved_player {} ?s) 0 [] 0)
             = (moved_player {} ?s, 0, [], 0)"
    by (rule ue_blocked_snd [OF blocked])
  have ue: "update_enemies fill_grid rnd [stuck_enemy] (moved_player {} ?s) 0 [] 0
            = ([stuck_enemy], moved_player {} ?s, 0, [], 0)"
    using ue1 ue2 by (simp only: prod_eq_iff fst_conv snd_conv simp_thms)
  have g: "grid ?s = fill_grid" and es: "enemies ?s = [stuck_enemy]" and pa: "particles ?s = []"
    and sh: "screenShake ?s = 0" and st: "status ?s = PLAYING"
    by (simp_all add: cooling_state_def demo_state_def)
  have "update {} rnd ?s =
     ?s\<lparr>status := (if health (moved_player {} ?s) \<le> 0 then LOST else status ?s),
        player := moved_player {} ?s, enemies := [stuck_enemy],
        camera := \<lparr>vx = vx (pos (moved_player {} ?s)) - VIEWPORT_WIDTH / 2 + TILE_SIZE / 2,
                    vy = vy (pos (moved_player {} ?s)) - VIEWPORT_HEIGHT / 2 + TILE_SIZE / 2\<rparr>,
        particles := [], screenShake := 0\<rparr>"
    by (simp add: update_playing [OF st] g es pa sh ue del: update_enemies.simps)
  also have "\<dots> = cooling_state (c - 1)"
    unfolding pp mp
    by (simp add: cooling_state_def demo_state_def init_player_def
        VIEWPORT_WIDTH_def VIEWPORT_HEIGHT_def TILE_SIZE_def GRID_WIDTH_def)
  finally show ?thesis .
qed

lemma cooling_ticks:
  "int n < c \<Longrightarrow> ticks (replicate n ({}, rnd)) (cooling_state c) = cooling_state (c - int n)"
proof (induction n arbitrary: c)
  case 0
  show ?case by simp
next
  case (Suc n)
  have "2 \<le> c" using Suc.prems by simp
  then have "ticks (replicate (Suc n) ({}, rnd)) (cooling_state c)
           = ticks (replicate n ({}, rnd)) (cooling_state (c - 1))"
    by (simp add: cooling_tick)
  also have "\<dots> = cooling_state (c - 1 - int n)"
    using Suc.prems by (intro Suc.IH) simp
  finally show ?case by (simp add: algebra_simps)
qed

subsection \<open>Pointer attack and melee attack\<close>

lemma hit_particles_are_hits: "list_all is_hit_particle (hit_particles p rnd k)"
  by (simp add: hit_particles_def is_hit_particle_def list_all_iff)

lemma ce_Cons:
  "click_enemies mx my rnd (e # es) ps k hit =
     (click_damage mx my e #
        fst (click_enemies mx my rnd es
               (if in_click mx my e then ps @ hit_particles (pos e) rnd k else ps)
               (if in_click mx my e then k + 10 else k) (in_click mx my e \<or> hit)),
      snd (click_enemies mx my rnd es
               (if in_click mx my e then ps @ hit_particles (pos e) rnd k else ps)
               (if in_click mx my e then k + 10 else k) (in_click mx my e \<or> hit)))"
  by (simp add: case_prod_beta in_click_def click_damage_def)

lemma ce_enemies: "fst (click_enemies mx my rnd es ps k hit) = map (click_damage mx my) es"
  by (induction es arbitrary: ps k hit) (simp_all add: ce_Cons del: click_enemies.simps(2))

lemma ce_hit:
  "snd (snd (snd (click_enemies mx my rnd es ps k hit))) \<longleftrightarrow> hit \<or> (\<exists>e\<in>set es. in_click mx my e)"
  by (induction es arbitrary: ps k hit) (auto simp add: ce_Cons simp del: click_enemies.simps(2))

lemma ce_particles:
  "\<exists>hits. fst (snd (click_enemies mx my rnd es ps k hit)) = ps @ hits \<and> list_all is_hit_particle hits"
proof (induction es arbitrary: ps k hit)
  case Nil
  show ?case by simp
next
  case (Cons e es)
  show ?case
  proof (cases "in_click mx my e")
    case True
    obtain hits where h: "fst (snd (click_enemies mx my rnd es (ps @ hit_particles (pos e) rnd k) (k + 10) True))
        = (ps @ hit_particles (pos e) rnd k) @ hits" "list_all is_hit_particle hits"
      using Cons.IH by blast
    have "fst (snd (click_enemies mx my rnd (e # es) ps k hit)) = ps @ (hit_particles (pos e) rnd k @ hits)"
      using True h(1) by (simp add: ce_Cons del: click_enemies.simps(2))
    moreover have "list_all is_hit_particle (hit_particles (pos e) rnd k @ hits)"
      using h(2) by (simp add: hit_particles_are_hits)
    ultimately show ?thesis by blast
  next
    case False
    then show ?thesis using Cons.IH [of ps k hit] by (simp add: ce_Cons del: click_enemies.simps(2))
  qed
qed

lemma click_attack_eq:
  "click_attack mx my rnd s =
     (let r = click_enemies mx my rnd (enemies s) (particles s) 0 False;
          s1 = s\<lparr>enemies := filter (\<lambda>e. health e > 0) (map (click_damage mx my) (enemies s)),
                 particles := fst (snd r)\<rparr>
      in (if some_killed mx my (enemies s)
          then s1\<lparr>player := (player s)\<lparr>health := min INITIAL_PLAYER_HEALTH (health (player s) + 20)\<rparr>\<rparr>
          else s1,
          fst (snd (snd r)), \<exists>e\<in>set (enemies s). in_click mx my e))"
  using ce_hit [of mx my rnd "enemies s" "particles s" 0 False]
  by (simp add: click_attack_def Let_def case_prod_beta ce_enemies some_killed_def prod_eq_iff
      del: click_enemies.simps)

lemma some_killed_iff:
  assumes "list_all (\<lambda>e. health e > 0) es"
  shows "some_killed mx my es \<longleftrightarrow> (\<exists>e\<in>set es. in_click mx my e \<and> health e \<le> CLICK_DAMAGE)"
proof -
  have "length (filter P (map f xs)) < length xs \<longleftrightarrow> (\<exists>x\<in>set xs. \<not> P (f x))"
    for P and f :: "Entity \<Rightarrow> Entity" and xs
  proof (induction xs)
    case Nil
    show ?case by simp
  next
    case (Cons x xs)
    have "length (filter P (map f xs)) \<le> length xs"
      using length_filter_le [of P "map f xs"] by simp
    then show ?case using Cons.IH by (auto simp add: less_Suc_eq_le)
  qed
  then have "some_killed mx my es \<longleftrightarrow> (\<exists>e\<in>set es. \<not> health (click_damage mx my e) > 0)"
    by (simp add: some_killed_def)
  also have "\<dots> \<longleftrightarrow> (\<exists>e\<in>set es. in_click mx my e \<and> health e \<le> CLICK_DAMAGE)"
    using assms by (force simp add: click_damage_def list_all_iff not_less)
  finally show ?thesis .
qed

lemma mine_frame:
  "player (mine tx ty rnd k s) = player s \<and> enemies (mine tx ty rnd k s) = enemies s"
  by (simp add: mine_def award_def Let_def)

lemma click_player_health:
  assumes "status s = PLAYING"
  shows "health (player (handleCanvasClick cx cy rnd s)) =
     (if some_killed (cx + vx (camera s)) (cy + vy (camera s)) (enemies s)
      then min INITIAL_PLAYER_HEALTH (health (player s) + 20) else health (player s))"
  using assms
  by (simp add: handleCanvasClick_def click_attack_eq Let_def mine_frame del: click_enemies.simps)

lemma click_enemies_eq:
  assumes "status s = PLAYING"
  shows "enemies (handleCanvasClick cx cy rnd s) =
     filter (\<lambda>e. health e > 0) (map (click_damage (cx + vx (camera s)) (cy + vy (camera s))) (enemies s))"
  using assms
  by (simp add: handleCanvasClick_def click_attack_eq Let_def mine_frame del: click_enemies.simps)

lemma ae_Cons:
  "attack_enemies pp rnd (e # es) ps k =
     (sword_damage pp e #
        fst (attack_enemies pp rnd es
               (if in_reach pp e then ps @ hit_particles (pos e) rnd k else ps)
               (if in_reach pp e then k + 10 else k)),
      snd (attack_enemies pp rnd es
               (if in_reach pp e then ps @ hit_particles (pos e) rnd k else ps)
               (if in_reach pp e then k + 10 else k)))"
  by (simp add: case_prod_beta in_reach_def sword_damage_def)

lemma ae_enemies: "fst (attack_enemies pp rnd es ps k) = map (sword_damage pp) es"
  by (induction es arbitrary: ps k) (simp_all add: ae_Cons del: attack_enemies.simps(2))


lemma attack_enemies_eq:
  assumes "status s = PLAYING" and "\<not> (case attackCooldown (player s) of None \<Rightarrow> 0 | Some c \<Rightarrow> c) > 0"
  shows "enemies (handleAttack rnd s) =
           filter (\<lambda>e. health e > 0) (map (sword_damage (pos (player s))) (enemies s))"
  using assms
  by (simp add: handleAttack_def Let_def case_prod_beta ae_enemies del: attack_enemies.simps)

lemma attack_frame:
  "health (player (handleAttack rnd s)) = health (player s)
   \<and> maxHealth (player (handleAttack rnd s)) = maxHealth (player s)
   \<and> status (handleAttack rnd s) = status s"
  by (simp add: handleAttack_def Let_def case_prod_beta del: attack_enemies.simps)

lemma demo_fields:
  "status (demo_state cd h es) = PLAYING" "enemies (demo_state cd h es) = es"
  "camera (demo_state cd h es) = \<lparr>vx = 420, vy = - 120\<rparr>"
  "health (player (demo_state cd h es)) = h" "grid (demo_state cd h es) = fill_grid"
  "particles (demo_state cd h es) = []" "screenShake (demo_state cd h es) = 0"
  "shardsCollected (demo_state cd h es) = 0" "goldCollected (demo_state cd h es) = 0"
  "diamondsCollected (demo_state cd h es) = 0"
  "attackCooldown (player (demo_state cd h es)) = Some 0"
  "maxHealth (player (demo_state cd h es)) = 200"
  by (simp_all add: demo_state_def init_player_def INITIAL_PLAYER_HEALTH_def)

lemma demo_in_click: "in_click 820 200 (demo_enemy 800 180 h)"
  by (simp add: in_click_def demo_enemy_def hypot_less_iff TILE_SIZE_def)

lemma demo_in_reach: "in_reach \<lparr>vx = 800, vy = 160\<rparr> (demo_enemy 800 180 h)"
  by (simp add: in_reach_def demo_enemy_def hypot_less_iff TILE_SIZE_def)

lemma demo_enemy_health: "health (demo_enemy a b h) = h"
  by (simp add: demo_enemy_def)

subsection \<open>Events outside play; mining a shard\<close>





lemma click_mines:
  assumes "status s = PLAYING"
    and "0 \<le> \<lfloor>(cx + vx (camera s)) / TILE_SIZE\<rfloor>" and "\<lfloor>(cx + vx (camera s)) / TILE_SIZE\<rfloor> < GRID_WIDTH"
    and "0 \<le> \<lfloor>(cy + vy (camera s)) / TILE_SIZE\<rfloor>" and "\<lfloor>(cy + vy (camera s)) / TILE_SIZE\<rfloor> < GRID_HEIGHT"
    and "hypot ((real_of_int \<lfloor>(cx + vx (camera s)) / TILE_SIZE\<rfloor> + 0.5) * TILE_SIZE - (vx (pos (player s)) + TILE_SIZE / 2))
               ((real_of_int \<lfloor>(cy + vy (camera s)) / TILE_SIZE\<rfloor> + 0.5) * TILE_SIZE - (vy (pos (player s)) + TILE_SIZE / 2))
          < TILE_SIZE * 3.5"
  shows "handleCanvasClick cx cy rnd s =
     mine \<lfloor>(cx + vx (camera s)) / TILE_SIZE\<rfloor> \<lfloor>(cy + vy (camera s)) / TILE_SIZE\<rfloor> rnd
       (fst (snd (click_attack (cx + vx (camera s)) (cy + vy (camera s)) rnd s)))
       (fst (click_attack (cx + vx (camera s)) (cy + vy (camera s)) rnd s))"
  using assms
  by (simp add: handleCanvasClick_def click_attack_eq Let_def not_le del: click_enemies.simps)

lemma click_attack_frame:
  "grid (fst (click_attack mx my rnd s)) = grid s
   \<and> shardsCollected (fst (click_attack mx my rnd s)) = shardsCollected s
   \<and> status (fst (click_attack mx my rnd s)) = status s"
  by (simp add: click_attack_eq Let_def del: click_enemies.simps)

lemma mine_shard:
  assumes "ttype (tile_at (grid s) ty tx) = SHARD" and "durability (tile_at (grid s) ty tx) \<le> 8"
  shows "shardsCollected (mine tx ty rnd k s) = shardsCollected s + 1
       \<and> status (mine tx ty rnd k s) = (if SHARD_GOAL \<le> shardsCollected s + 1 then WON else status s)"
  using assms by (simp add: mine_def award_def Let_def)

lemma fill_set_get: "tile_at (set_tile fill_grid 5 20 t) 5 20 = t"
  by (simp add: tile_at_def set_tile_def fill_grid_def GRID_WIDTH_def GRID_HEIGHT_def)


text \<open>A press in reach of the player reaches the mining update whether or not it hit a hostile.\<close>

lemma mine_out:
  assumes "ttype (tile_at (grid s) ty tx) \<noteq> AIR" and "durability (tile_at (grid s) ty tx) \<le> 8"
  shows "grid (mine tx ty rnd k s) =
           set_tile (grid s) ty tx
             ((tile_at (grid s) ty tx)\<lparr>durability := durability (tile_at (grid s) ty tx) - 8, ttype := AIR\<rparr>)
       \<and> screenShake (mine tx ty rnd k s) = 5
       \<and> (\<exists>labels. particles (mine tx ty rnd k s) =
             particles s @ spawnMiningParticles tx ty (COLORS (ttype (tile_at (grid s) ty tx))) rnd k @ labels)"
  using assms by (simp add: mine_def award_def Let_def)

lemma mining_particle_life: "list_all (\<lambda>q. life q = 30 \<and> color q = c) (spawnMiningParticles tx ty c rnd k)"
  by (simp add: spawnMiningParticles_def list_all_iff)

lemma mining_particle_ex: "list_ex (\<lambda>q. life q = 30 \<and> color q = c) (spawnMiningParticles tx ty c rnd k)"
proof -
  have "spawnMiningParticles tx ty c rnd k \<noteq> []"
    by (simp add: spawnMiningParticles_def)
  then obtain q qs where "spawnMiningParticles tx ty c rnd k = q # qs"
    by (cases "spawnMiningParticles tx ty c rnd k") simp_all
  then show ?thesis
    using mining_particle_life [of c tx ty rnd k] by simp
qed

lemma pair_click_mines:
  "handleCanvasClick 400 320 half pair_state =
     mine 20 5 half (fst (snd (click_attack 820 200 half pair_state))) (fst (click_attack 820 200 half pair_state))"
proof -
  have st: "status pair_state = PLAYING" by (simp add: pair_state_def demo_fields)
  have c: "camera pair_state = \<lparr>vx = 420, vy = - 120\<rparr>" by (simp add: pair_state_def demo_fields)
  have p: "pos (player pair_state) = \<lparr>vx = 800, vy = 160\<rparr>" by (simp add: pair_state_def demo_player_pos)
  show ?thesis
    using click_mines [of pair_state 400 320 half]
    by (simp add: st c p TILE_SIZE_def GRID_WIDTH_def GRID_HEIGHT_def hypot_less_iff)
qed

lemma shard_hit_click:
  "shardsCollected (handleCanvasClick 400 340 half shard_hit_state) = 10
   \<and> status (handleCanvasClick 400 340 half shard_hit_state) = WON"
proof -
  let ?r = "click_attack 820 220 half shard_hit_state"
  have st: "status shard_hit_state = PLAYING"
    by (simp add: shard_hit_state_def shard_state_def demo_fields)
  have c: "camera shard_hit_state = \<lparr>vx = 420, vy = - 120\<rparr>"
    by (simp add: shard_hit_state_def shard_state_def demo_fields)
  have p: "pos (player shard_hit_state) = \<lparr>vx = 800, vy = 160\<rparr>"
    by (simp add: shard_hit_state_def shard_state_def demo_player_pos)
  have m: "handleCanvasClick 400 340 half shard_hit_state = mine 20 5 half (fst (snd ?r)) (fst ?r)"
    using click_mines [of shard_hit_state 400 340 half]
    by (simp add: st c p TILE_SIZE_def GRID_WIDTH_def GRID_HEIGHT_def hypot_less_iff)
  have fr: "grid (fst ?r) = set_tile fill_grid 5 20 \<lparr>ttype = SHARD, durability = 4, maxDurability = 12\<rparr>"
      "shardsCollected (fst ?r) = 9" "status (fst ?r) = PLAYING"
    using click_attack_frame [of 820 220 half shard_hit_state]
    by (simp_all add: shard_hit_state_def shard_state_def demo_fields)
  show ?thesis
    using mine_shard [of "fst ?r" 5 20 half "fst (snd ?r)"]
    by (simp add: m fr fill_set_get SHARD_GOAL_def)
qed

subsection \<open>Collision and movement\<close>

lemma checkCollision_iff:
  "checkCollision g px py \<longleftrightarrow> (\<exists>tx ty. covered px py tx ty \<and> tile_solid g tx ty)"
proof -
  have "checkCollision g px py \<longleftrightarrow>
     (\<exists>ty\<in>{\<lfloor>(py + 8) / TILE_SIZE\<rfloor>..\<lfloor>(py + TILE_SIZE - 8) / TILE_SIZE\<rfloor>}.
      \<exists>tx\<in>{\<lfloor>(px + 8) / TILE_SIZE\<rfloor>..\<lfloor>(px + TILE_SIZE - 8) / TILE_SIZE\<rfloor>}. tile_solid g tx ty)"
    by (simp add: checkCollision_def tile_solid_def list_ex_iff Let_def)
  also have "\<dots> \<longleftrightarrow> (\<exists>tx ty. covered px py tx ty \<and> tile_solid g tx ty)"
    unfolding covered_def Bex_def atLeastAtMost_iff by blast
  finally show ?thesis .
qed

lemma try_move_cases:
  "try_move g nx ny p =
     (if \<not> checkCollision g nx (vy p)
      then (if \<not> checkCollision g nx ny then \<lparr>vx = nx, vy = ny\<rparr> else \<lparr>vx = nx, vy = vy p\<rparr>)
      else (if \<not> checkCollision g (vx p) ny then \<lparr>vx = vx p, vy = ny\<rparr> else p))"
  by (simp add: try_move_def Let_def)

lemma try_move_axes:
  "(vx (try_move g nx ny p) \<noteq> vx p \<longrightarrow> \<not> checkCollision g (vx (try_move g nx ny p)) (vy p))
   \<and> (vy (try_move g nx ny p) \<noteq> vy p \<longrightarrow> \<not> collides g (try_move g nx ny p))
   \<and> (try_move g nx ny p \<noteq> p \<longrightarrow> \<not> collides g (try_move g nx ny p))"
proof (cases "checkCollision g nx (vy p)")
  case True
  then show ?thesis by (cases "checkCollision g (vx p) ny") (simp_all add: try_move_cases collides_def)
next
  case False
  then show ?thesis by (cases "checkCollision g nx ny") (simp_all add: try_move_cases collides_def)
qed

lemma steer_axes:
  "(vx (pos (steer g pp d e)) \<noteq> vx (pos e) \<longrightarrow> \<not> checkCollision g (vx (pos (steer g pp d e))) (vy (pos e)))
   \<and> (vy (pos (steer g pp d e)) \<noteq> vy (pos e) \<longrightarrow> \<not> collides g (pos (steer g pp d e)))
   \<and> (pos (steer g pp d e) \<noteq> pos e \<longrightarrow> \<not> collides g (pos (steer g pp d e)))"
proof (cases "d < 250")
  case True
  then have "pos (steer g pp d e) =
      try_move g (vx (pos e) + cos (atan2 (vy pp - vy (pos e)) (vx pp - vx (pos e))) * 1.5)
                 (vy (pos e) + sin (atan2 (vy pp - vy (pos e)) (vx pp - vx (pos e))) * 1.5) (pos e)"
    by (simp add: steer_def Let_def)
  then show ?thesis by (simp only:) (rule try_move_axes)
next
  case False
  then show ?thesis by (simp add: steer_def)
qed

lemma move_player_pos:
  "pos (move_player keys g p) =
     try_move g
       (vx (pos p) + ((if ''KeyA'' \<in> keys \<or> ''ArrowLeft'' \<in> keys then - 5 else 0)
                      + (if ''KeyD'' \<in> keys \<or> ''ArrowRight'' \<in> keys then 5 else 0)))
       (vy (pos p) + ((if ''KeyW'' \<in> keys \<or> ''ArrowUp'' \<in> keys then - 5 else 0)
                      + (if ''KeyS'' \<in> keys \<or> ''ArrowDown'' \<in> keys then 5 else 0)))
       (pos p)"
  by (simp add: move_player_def Let_def)

lemma move_player_axes:
  "(vx (pos (move_player keys g p)) \<noteq> vx (pos p) \<longrightarrow>
       \<not> checkCollision g (vx (pos (move_player keys g p))) (vy (pos p)))
   \<and> (vy (pos (move_player keys g p)) \<noteq> vy (pos p) \<longrightarrow> \<not> collides g (pos (move_player keys g p)))
   \<and> (pos (move_player keys g p) \<noteq> pos p \<longrightarrow> \<not> collides g (pos (move_player keys g p)))"
  by (simp only: move_player_pos) (rule try_move_axes)

lemma update_player_pos:
  "status s = PLAYING \<Longrightarrow> pos (player (update keys rnd s)) = pos (move_player keys (grid s) (player s))"
  by (simp add: update_player moved_player_def move_player_pos)

lemmas fill_eval = checkCollision_def TILE_SIZE_def GRID_WIDTH_def GRID_HEIGHT_def Let_def upto.simps
  fill_tile new_tile_def fill_type_def

lemma demo_enemy_pos: "pos (demo_enemy a b h) = \<lparr>vx = a, vy = b\<rparr>"
  by (simp add: demo_enemy_def)

lemma chase_player_step:
  "pos (player (update {''KeyD''} rnd chase_state)) = \<lparr>vx = 805, vy = 160\<rparr>"
proof -
  have st: "status chase_state = PLAYING" by (simp add: chase_state_def demo_state_def)
  have a: "\<not> checkCollision fill_grid 805 160" by (simp add: fill_eval)
  show ?thesis
    by (simp add: update_player_pos [OF st] move_player_pos)
       (simp add: chase_state_def demo_state_def init_player_def GRID_WIDTH_def TILE_SIZE_def
          try_move_cases a)
qed

lemma chase_enemy_step:
  "enemies (update {''KeyD''} rnd chase_state) =
     [(demo_enemy 805 100 100)\<lparr>pos := \<lparr>vx = 805, vy = 203 / 2\<rparr>, direction := - 1\<rparr>]"
proof -
  have st: "status chase_state = PLAYING" by (simp add: chase_state_def demo_state_def)
  have pp: "pos (moved_player {''KeyD''} chase_state) = \<lparr>vx = 805, vy = 160\<rparr>"
    using chase_player_step [of rnd] by (simp add: update_player_pos [OF st] moved_player_def move_player_pos)
  have a: "\<not> checkCollision fill_grid 805 100" by (simp add: fill_eval)
  have b: "\<not> checkCollision fill_grid 805 (203 / 2)" by (simp add: fill_eval)
  have d: "hypot 0 60 < 250" by (simp add: hypot_less_iff)
  have s: "steer fill_grid \<lparr>vx = 805, vy = 160\<rparr> (hypot 0 60) (demo_enemy 805 100 100)
           = (demo_enemy 805 100 100)\<lparr>pos := \<lparr>vx = 805, vy = 203 / 2\<rparr>, direction := - 1\<rparr>"
    by (simp add: steer_def d) (simp add: demo_enemy_def atan2_def Let_def try_move_cases a b)
  show ?thesis
    by (simp add: update_enemies_eq [OF st] pp)
       (simp add: chase_state_def demo_state_def demo_enemy_pos s)
qed

subsection \<open>Health bounds along a session\<close>

lemma steer_health [simp]: "health (steer g pp d e) = health e" "maxHealth (steer g pp d e) = maxHealth e"
  by (simp_all add: steer_def Let_def)














subsection \<open>World generation\<close>

lemma wf_fill_grid: "wf_grid fill_grid"
  by (simp add: wf_grid_def fill_grid_def list_all_iff)

lemma wf_set_tile: "wf_grid g \<Longrightarrow> wf_grid (set_tile g ty tx t)"
proof (cases "nat ty < length g")
  case True
  assume w: "wf_grid g"
  then have "length ((g ! nat ty)[nat tx := t]) = nat GRID_WIDTH"
    using True by (simp add: wf_grid_def list_all_iff)
  then show ?thesis
    using w set_update_subset_insert [of g "nat ty" "(g ! nat ty)[nat tx := t]"]
    by (auto simp add: wf_grid_def set_tile_def list_all_iff)
next
  case False
  assume "wf_grid g"
  then show ?thesis using False by (simp add: set_tile_def list_update_beyond)
qed

lemma tile_at_set_tile:
  assumes "wf_grid g" and "in_grid ty tx" and "in_grid y x"
  shows "tile_at (set_tile g ty tx t) y x = (if y = ty \<and> x = tx then t else tile_at g y x)"
proof -
  have l: "nat ty < length g" "nat y < length g"
    using assms by (simp_all add: wf_grid_def in_grid_def)
  have r: "length (g ! nat ty) = nat GRID_WIDTH"
    using assms l by (simp add: wf_grid_def list_all_iff)
  have n: "nat y = nat ty \<longleftrightarrow> y = ty" "nat x = nat tx \<longleftrightarrow> x = tx"
    using assms by (auto simp add: in_grid_def)
  show ?thesis
    using l r n assms(2,3)
    by (auto simp add: tile_at_def set_tile_def nth_list_update in_grid_def)
qed

lemma abs_le_hypot1: "\<bar>a\<bar> \<le> hypot a b"
  unfolding hypot_def using real_sqrt_le_mono [of "a * a" "a * a + b * b"] by simp

lemma abs_le_hypot2: "\<bar>b\<bar> \<le> hypot a b"
  unfolding hypot_def using real_sqrt_le_mono [of "b * b" "a * a + b * b"] by simp

lemma carve_cell_wf: "wf_grid g \<Longrightarrow> wf_grid (carve_cell cx cy r dy dx g)"
  by (simp add: carve_cell_def Let_def wf_set_tile)

lemma carve_cell_tile:
  assumes "wf_grid g" and "in_grid y x"
  shows "tile_at (carve_cell cx cy r dy dx g) y x =
     (if cy + dy = y \<and> cx + dx = x \<and> 10 \<le> y \<and> hypot (real_of_int dx) (real_of_int dy) \<le> real_of_int r
      then air_tile else tile_at g y x)"
proof (cases "cx + dx \<ge> 0 \<and> cx + dx < GRID_WIDTH \<and> cy + dy \<ge> 10 \<and> cy + dy < GRID_HEIGHT
              \<and> hypot (real_of_int dx) (real_of_int dy) \<le> real_of_int r")
  case True
  then have ig: "in_grid (cy + dy) (cx + dx)" by (simp add: in_grid_def)
  have "carve_cell cx cy r dy dx g = set_tile g (cy + dy) (cx + dx) air_tile"
    using True by (simp add: carve_cell_def Let_def)
  then show ?thesis
    using True by (auto simp add: tile_at_set_tile [OF assms(1) ig assms(2)])
next
  case False
  then have "carve_cell cx cy r dy dx g = g"
    by (auto simp add: carve_cell_def Let_def)
  then show ?thesis using False assms(2) by (auto simp add: in_grid_def)
qed

lemma carve_row:
  assumes "wf_grid g" and "in_grid y x"
  shows "wf_grid (fold (\<lambda>dx g2. carve_cell cx cy r dy dx g2) dxs g)
     \<and> tile_at (fold (\<lambda>dx g2. carve_cell cx cy r dy dx g2) dxs g) y x =
        (if \<exists>dx\<in>set dxs. cy + dy = y \<and> cx + dx = x \<and> 10 \<le> y
                \<and> hypot (real_of_int dx) (real_of_int dy) \<le> real_of_int r
         then air_tile else tile_at g y x)"
  using assms(1)
proof (induction dxs arbitrary: g)
  case Nil
  then show ?case by simp
next
  case (Cons d dxs)
  have w: "wf_grid (carve_cell cx cy r dy d g)" by (rule carve_cell_wf [OF Cons.prems])
  show ?case
    using Cons.IH [OF w] carve_cell_tile [OF Cons.prems assms(2), of cx cy r dy d]
    by auto
qed

lemma carve_rows:
  assumes "wf_grid g" and "in_grid y x"
  shows "wf_grid (fold (\<lambda>dy g1. fold (\<lambda>dx g2. carve_cell cx cy r dy dx g2) dxs g1) dys g)
     \<and> tile_at (fold (\<lambda>dy g1. fold (\<lambda>dx g2. carve_cell cx cy r dy dx g2) dxs g1) dys g) y x =
        (if \<exists>dy\<in>set dys. \<exists>dx\<in>set dxs. cy + dy = y \<and> cx + dx = x \<and> 10 \<le> y
                \<and> hypot (real_of_int dx) (real_of_int dy) \<le> real_of_int r
         then air_tile else tile_at g y x)"
  using assms(1)
proof (induction dys arbitrary: g)
  case Nil
  then show ?case by simp
next
  case (Cons d dys)
  note row = carve_row [OF Cons.prems assms(2), of cx cy r d dxs]
  show ?case
    using Cons.IH [OF row [THEN conjunct1]] row [THEN conjunct2]
    by auto
qed

lemma carve_disc_wf: "wf_grid g \<Longrightarrow> wf_grid (carve_disc cx cy r g)"
proof -
  assume w: "wf_grid g"
  have "in_grid 0 0" by (simp add: in_grid_def GRID_WIDTH_def GRID_HEIGHT_def)
  from carve_rows [OF w this, of cx cy r "[- r..r]" "[- r..r]"] show ?thesis
    by (simp add: carve_disc_def)
qed

lemma carve_disc_tile:
  assumes "wf_grid g" and "in_grid y x"
  shows "tile_at (carve_disc cx cy r g) y x =
     (if 10 \<le> y \<and> hypot (real_of_int (x - cx)) (real_of_int (y - cy)) \<le> real_of_int r
      then air_tile else tile_at g y x)"
proof -
  have "(\<exists>dy\<in>set [- r..r]. \<exists>dx\<in>set [- r..r]. cy + dy = y \<and> cx + dx = x \<and> 10 \<le> y
                \<and> hypot (real_of_int dx) (real_of_int dy) \<le> real_of_int r)
      \<longleftrightarrow> 10 \<le> y \<and> hypot (real_of_int (x - cx)) (real_of_int (y - cy)) \<le> real_of_int r"
    (is "?L \<longleftrightarrow> ?R")
  proof
    assume ?L
    then obtain dy dx where "cy + dy = y" "cx + dx = x" "10 \<le> y"
      "hypot (real_of_int dx) (real_of_int dy) \<le> real_of_int r" by blast
    moreover from this have "dx = x - cx" "dy = y - cy" by simp_all
    ultimately show ?R by simp
  next
    assume r: ?R
    have "\<bar>real_of_int (x - cx)\<bar> \<le> real_of_int r"
      using r abs_le_hypot1 [of "real_of_int (x - cx)" "real_of_int (y - cy)"] by linarith
    moreover have "\<bar>real_of_int (y - cy)\<bar> \<le> real_of_int r"
      using r abs_le_hypot2 [of "real_of_int (y - cy)" "real_of_int (x - cx)"] by linarith
    ultimately have "\<bar>x - cx\<bar> \<le> r" "\<bar>y - cy\<bar> \<le> r"
      by linarith+
    then have "x - cx \<in> set [- r..r]" "y - cy \<in> set [- r..r]"
      by auto
    with r show ?L by force
  qed
  then show ?thesis
    using carve_rows [OF assms, of cx cy r "[- r..r]" "[- r..r]"]
    by (simp only: carve_disc_def)
qed

lemma only_carved_refl: "wf_grid g \<Longrightarrow> only_carved g g"
  by (simp add: only_carved_def)

lemma only_carved_trans: "only_carved g g1 \<Longrightarrow> only_carved g1 g2 \<Longrightarrow> only_carved g g2"
  unfolding only_carved_def by metis

lemma only_carved_disc: "wf_grid g \<Longrightarrow> only_carved g (carve_disc cx cy r g)"
  by (simp add: only_carved_def carve_disc_wf carve_disc_tile)

lemma only_carved_worm: "wf_grid g \<Longrightarrow> only_carved g (fst (worm n cx cy rnd k g))"
proof (induction n arbitrary: cx cy k g)
  case 0
  then show ?case by (simp add: only_carved_refl)
next
  case (Suc n)
  let ?g1 = "carve_disc cx cy (disc_radius (rnd k)) g"
  have d: "only_carved g ?g1" by (rule only_carved_disc [OF Suc.prems])
  then have w: "wf_grid ?g1" by (simp add: only_carved_def)
  have "fst (worm (Suc n) cx cy rnd k g) = ?g1
      \<or> (\<exists>cx1 cy1. fst (worm (Suc n) cx cy rnd k g) = fst (worm n cx1 cy1 rnd (k + 3) ?g1))"
    by (simp add: Let_def) blast
  then show ?case
    using d Suc.IH [OF w] by (metis only_carved_trans)
qed

lemma worm_steps: "\<exists>m. m \<le> n \<and> (0 < n \<longrightarrow> 0 < m) \<and> snd (worm n cx cy rnd k g) = k + 3 * m"
proof (induction n arbitrary: cx cy k g)
  case 0
  show ?case by simp
next
  case (Suc n)
  let ?g1 = "carve_disc cx cy (disc_radius (rnd k)) g"
  have "snd (worm (Suc n) cx cy rnd k g) = k + 3
      \<or> (\<exists>cx1 cy1. snd (worm (Suc n) cx cy rnd k g) = snd (worm n cx1 cy1 rnd (k + 3) ?g1))"
    by (simp add: Let_def) blast
  then show ?case
  proof
    assume "snd (worm (Suc n) cx cy rnd k g) = k + 3"
    then show ?thesis by (intro exI [of _ 1]) simp
  next
    assume "\<exists>cx1 cy1. snd (worm (Suc n) cx cy rnd k g) = snd (worm n cx1 cy1 rnd (k + 3) ?g1)"
    then obtain cx1 cy1 where e: "snd (worm (Suc n) cx cy rnd k g) = snd (worm n cx1 cy1 rnd (k + 3) ?g1)"
      by blast
    obtain m where "m \<le> n" "snd (worm n cx1 cy1 rnd (k + 3) ?g1) = k + 3 + 3 * m"
      using Suc.IH [of cx1 cy1 "k + 3" ?g1] by blast
    then show ?thesis using e by (intro exI [of _ "Suc m"]) simp
  qed
qed

lemma only_carved_caves: "wf_grid g \<Longrightarrow> only_carved g (fst (caves n rnd k g))"
proof (induction n arbitrary: k g)
  case 0
  then show ?case by (simp add: only_carved_refl)
next
  case (Suc n)
  obtain cx cy len where
    e: "fst (caves (Suc n) rnd k g) =
          fst (caves n rnd (snd (worm len cx cy rnd (k + 3) g)) (fst (worm len cx cy rnd (k + 3) g)))"
    by (simp add: Let_def case_prod_beta)
  have d: "only_carved g (fst (worm len cx cy rnd (k + 3) g))"
    by (rule only_carved_worm [OF Suc.prems])
  then have w: "wf_grid (fst (worm len cx cy rnd (k + 3) g))" by (simp add: only_carved_def)
  show ?case
    unfolding e by (rule only_carved_trans [OF d Suc.IH [OF w]])
qed

lemma walk_length_bounds: "0 \<le> r \<Longrightarrow> r < 1 \<Longrightarrow> 20 \<le> walk_length r \<and> walk_length r \<le> 59"
proof -
  assume "0 \<le> r" "r < 1"
  then have "0 \<le> \<lfloor>r * 40\<rfloor>" "\<lfloor>r * 40\<rfloor> < 40"
    by (simp_all add: floor_less_iff)
  then show ?thesis by (simp add: walk_length_def)
qed

lemma disc_radius_cases: "0 \<le> r \<Longrightarrow> r < 1 \<Longrightarrow> disc_radius r = 2 \<or> disc_radius r = 3"
proof -
  assume "0 \<le> r" "r < 1"
  then have "0 \<le> \<lfloor>r * 2\<rfloor>" "\<lfloor>r * 2\<rfloor> < 2"
    by (simp_all add: floor_less_iff)
  then have "\<lfloor>r * 2\<rfloor> = 0 \<or> \<lfloor>r * 2\<rfloor> = 1" by linarith
  then show ?thesis by (auto simp add: disc_radius_def)
qed

lemma fill_layers:
  assumes "in_grid y x"
  shows "tile_at fill_grid y x =
     new_tile (if y \<le> 4 then AIR else if y = 5 then GRASS else if y \<le> 9 then DIRT else STONE)"
proof -
  have "tile_at fill_grid y x = new_tile (fill_type y)"
    using assms by (intro fill_tile) (simp_all add: in_grid_def GRID_WIDTH_def GRID_HEIGHT_def)
  then show ?thesis by (simp add: fill_type_def)
qed

lemma placeResource_Suc:
  "placeResource (Suc fuel) tt count minY placed rnd k g =
     (if placed < count then
        (if ttype (tile_at g (fst (sample rnd minY k)) (snd (sample rnd minY k))) = STONE
            \<or> ttype (tile_at g (fst (sample rnd minY k)) (snd (sample rnd minY k))) = DIRT
         then placeResource fuel tt count minY (placed + 1) rnd (k + 2)
                (set_tile g (fst (sample rnd minY k)) (snd (sample rnd minY k)) (new_tile tt))
         else placeResource fuel tt count minY placed rnd (k + 2) g)
      else Some (g, k))"
  by (simp add: sample_def Let_def)

lemma sample_in_grid:
  assumes "unit_draws rnd" and "0 \<le> minY" and "minY < GRID_HEIGHT"
  shows "in_grid (fst (sample rnd minY k)) (snd (sample rnd minY k)) \<and> minY \<le> fst (sample rnd minY k)"
proof -
  have r: "0 \<le> rnd k" "rnd k < 1" "0 \<le> rnd (k + 1)" "rnd (k + 1) < 1"
    using assms(1) by (simp_all add: unit_draws_def)
  have h: "0 < real_of_int (GRID_HEIGHT - minY)" using assms(3) by simp
  have "rnd k * real_of_int GRID_WIDTH < real_of_int GRID_WIDTH"
    using r by (simp add: GRID_WIDTH_def)
  then have x: "0 \<le> \<lfloor>rnd k * real_of_int GRID_WIDTH\<rfloor>" "\<lfloor>rnd k * real_of_int GRID_WIDTH\<rfloor> < GRID_WIDTH"
    using r by (simp_all add: floor_less_iff GRID_WIDTH_def)
  have "rnd (k + 1) * real_of_int (GRID_HEIGHT - minY) < real_of_int (GRID_HEIGHT - minY)"
    using r h by simp
  then have y: "0 \<le> \<lfloor>rnd (k + 1) * real_of_int (GRID_HEIGHT - minY)\<rfloor>"
      "\<lfloor>rnd (k + 1) * real_of_int (GRID_HEIGHT - minY)\<rfloor> < GRID_HEIGHT - minY"
    using r h by (simp_all add: floor_less_iff)
  show ?thesis
    using x y assms(2) by (simp add: sample_def in_grid_def)
qed

lemma placeResource_frame:
  assumes "unit_draws rnd" and "0 \<le> minY" and "minY < GRID_HEIGHT"
  shows "wf_grid g \<Longrightarrow> placeResource fuel tt count minY placed rnd k g = Some (g', k') \<Longrightarrow>
     wf_grid g' \<and> (\<forall>y x. in_grid y x \<and> y < minY \<longrightarrow> tile_at g' y x = tile_at g y x)"
proof (induction fuel arbitrary: placed k g)
  case 0
  then show ?case by (simp split: if_splits)
next
  case (Suc fuel)
  note s = sample_in_grid [OF assms, of k]
  let ?ry = "fst (sample rnd minY k)" and ?rx = "snd (sample rnd minY k)"
  let ?g1 = "set_tile g ?ry ?rx (new_tile tt)"
  show ?case
  proof (cases "placed < count")
    case False
    then show ?thesis using Suc.prems by (simp add: placeResource_Suc del: placeResource.simps)
  next
    case True
    show ?thesis
    proof (cases "ttype (tile_at g ?ry ?rx) = STONE \<or> ttype (tile_at g ?ry ?rx) = DIRT")
      case False
      then have "placeResource fuel tt count minY placed rnd (k + 2) g = Some (g', k')"
        using True Suc.prems(2) by (simp add: placeResource_Suc del: placeResource.simps)
      then show ?thesis by (rule Suc.IH [OF Suc.prems(1)])
    next
      case st: True
      have w: "wf_grid ?g1" by (rule wf_set_tile [OF Suc.prems(1)])
      have "placeResource fuel tt count minY (placed + 1) rnd (k + 2) ?g1 = Some (g', k')"
        using True st Suc.prems(2) by (simp add: placeResource_Suc del: placeResource.simps)
      then have ih: "wf_grid g' \<and> (\<forall>y x. in_grid y x \<and> y < minY \<longrightarrow> tile_at g' y x = tile_at ?g1 y x)"
        by (rule Suc.IH [OF w])
      have "tile_at ?g1 y x = tile_at g y x" if "in_grid y x" "y < minY" for y x
        using that s by (simp add: tile_at_set_tile [OF Suc.prems(1)])
      then show ?thesis using ih by simp
    qed
  qed
qed

lemma generate_grid_rows:
  assumes "unit_draws rnd" and "generate_grid fuel rnd = Some (g', k')" and "in_grid y x" and "y < 10"
  shows "tile_at g' y x = tile_at fill_grid y x"
proof -
  let ?c = "caves 15 rnd 0 fill_grid"
  obtain g2 k2 g3 k3 where
    p1: "placeResource fuel SHARD 15 12 0 rnd (snd ?c) (fst ?c) = Some (g2, k2)" and
    p2: "placeResource fuel GOLD GOLD_COUNT 20 0 rnd k2 g2 = Some (g3, k3)" and
    p3: "placeResource fuel DIAMOND DIAMOND_COUNT 40 0 rnd k3 g3 = Some (g', k')"
    using assms(2) by (auto simp add: generate_grid_def case_prod_beta split: option.splits)
  have c: "only_carved fill_grid (fst ?c)" by (rule only_carved_caves [OF wf_fill_grid])
  then have w1: "wf_grid (fst ?c)" by (simp add: only_carved_def)
  note f1 = placeResource_frame [OF assms(1) _ _ w1 p1]
  have w2: "wf_grid g2" and t2: "tile_at g2 y x = tile_at (fst ?c) y x"
    using f1 assms(3,4) by (simp_all add: GRID_HEIGHT_def)
  note f2 = placeResource_frame [OF assms(1) _ _ w2 p2]
  have w3: "wf_grid g3" and t3: "tile_at g3 y x = tile_at g2 y x"
    using f2 assms(3,4) by (simp_all add: GRID_HEIGHT_def)
  note f3 = placeResource_frame [OF assms(1) _ _ w3 p3]
  have t4: "tile_at g' y x = tile_at g3 y x"
    using f3 assms(3,4) by (simp add: GRID_HEIGHT_def)
  have "tile_at (fst ?c) y x = tile_at fill_grid y x"
    using c assms(3,4) by (simp add: only_carved_def)
  then show ?thesis by (simp add: t4 t3 t2)
qed

lemma gen_draws_unit: "unit_draws gen_draws"
  by (simp add: unit_draws_def gen_draws_def)

lemma tile_at_set_tile_other:
  "wf_grid g \<Longrightarrow> in_grid ty tx \<Longrightarrow> in_grid y x \<Longrightarrow> (y, x) \<noteq> (ty, tx) \<Longrightarrow>
   tile_at (set_tile g ty tx t) y x = tile_at g y x"
  by (auto simp add: tile_at_set_tile)

lemma place_ok:
  assumes "wf_grid g"
    and "\<forall>j<n. in_grid (fst (sample rnd minY (k + 2 * j))) (snd (sample rnd minY (k + 2 * j)))
              \<and> ttype (tile_at g (fst (sample rnd minY (k + 2 * j))) (snd (sample rnd minY (k + 2 * j)))) = STONE"
    and "\<forall>i<n. \<forall>j<n. i \<noteq> j \<longrightarrow> sample rnd minY (k + 2 * i) \<noteq> sample rnd minY (k + 2 * j)"
    and "count = placed + int n" and "n \<le> fuel"
  shows "\<exists>g'. placeResource fuel tt count minY placed rnd k g = Some (g', k + 2 * n) \<and> wf_grid g'
            \<and> (\<forall>y x. in_grid y x \<and> (\<forall>j<n. (y, x) \<noteq> sample rnd minY (k + 2 * j))
                  \<longrightarrow> tile_at g' y x = tile_at g y x)"
  using assms
proof (induction n arbitrary: fuel placed k g)
  case 0
  then show ?case by (cases fuel) simp_all
next
  case (Suc n)
  obtain f where f: "fuel = Suc f" "n \<le> f" using Suc.prems(5) by (cases fuel) simp_all
  let ?ry = "fst (sample rnd minY k)" and ?rx = "snd (sample rnd minY k)"
  let ?g1 = "set_tile g ?ry ?rx (new_tile tt)"
  have s0: "in_grid ?ry ?rx" "ttype (tile_at g ?ry ?rx) = STONE"
    using Suc.prems(2) [rule_format, of 0] by simp_all
  have w: "wf_grid ?g1" by (rule wf_set_tile [OF Suc.prems(1)])
  have step: "placeResource fuel tt count minY placed rnd k g
            = placeResource f tt count minY (placed + 1) rnd (k + 2) ?g1"
    using s0 Suc.prems(4) by (simp add: f placeResource_Suc del: placeResource.simps)
  have ne: "sample rnd minY (k + 2 + 2 * j) \<noteq> sample rnd minY k" if "j < n" for j
    using Suc.prems(3) [rule_format, of "Suc j" 0] that by simp
  have a: "\<forall>j<n. in_grid (fst (sample rnd minY (k + 2 + 2 * j))) (snd (sample rnd minY (k + 2 + 2 * j)))
     \<and> ttype (tile_at ?g1 (fst (sample rnd minY (k + 2 + 2 * j))) (snd (sample rnd minY (k + 2 + 2 * j)))) = STONE"
  proof (intro allI impI)
    fix j assume j: "j < n"
    have o: "in_grid (fst (sample rnd minY (k + 2 + 2 * j))) (snd (sample rnd minY (k + 2 + 2 * j)))"
      "ttype (tile_at g (fst (sample rnd minY (k + 2 + 2 * j))) (snd (sample rnd minY (k + 2 + 2 * j)))) = STONE"
      using Suc.prems(2) [rule_format, of "Suc j"] j by simp_all
    have "tile_at ?g1 (fst (sample rnd minY (k + 2 + 2 * j))) (snd (sample rnd minY (k + 2 + 2 * j)))
        = tile_at g (fst (sample rnd minY (k + 2 + 2 * j))) (snd (sample rnd minY (k + 2 + 2 * j)))"
    proof (rule tile_at_set_tile_other [OF Suc.prems(1) s0(1) o(1)])
      show "(fst (sample rnd minY (k + 2 + 2 * j)), snd (sample rnd minY (k + 2 + 2 * j))) \<noteq> (?ry, ?rx)"
        using ne [OF j] by (simp only: prod.collapse simp_thms)
    qed
    then show "in_grid (fst (sample rnd minY (k + 2 + 2 * j))) (snd (sample rnd minY (k + 2 + 2 * j)))
     \<and> ttype (tile_at ?g1 (fst (sample rnd minY (k + 2 + 2 * j))) (snd (sample rnd minY (k + 2 + 2 * j)))) = STONE"
      using o by simp
  qed
  have b: "\<forall>i<n. \<forall>j<n. i \<noteq> j \<longrightarrow> sample rnd minY (k + 2 + 2 * i) \<noteq> sample rnd minY (k + 2 + 2 * j)"
  proof (intro allI impI)
    fix i j assume "i < n" "j < n" "i \<noteq> j"
    then show "sample rnd minY (k + 2 + 2 * i) \<noteq> sample rnd minY (k + 2 + 2 * j)"
      using Suc.prems(3) [rule_format, of "Suc i" "Suc j"] by simp
  qed
  have c: "count = placed + 1 + int n" using Suc.prems(4) by simp
  obtain g' where g': "placeResource f tt count minY (placed + 1) rnd (k + 2) ?g1 = Some (g', k + 2 + 2 * n)"
    "wf_grid g'"
    "\<forall>y x. in_grid y x \<and> (\<forall>j<n. (y, x) \<noteq> sample rnd minY (k + 2 + 2 * j)) \<longrightarrow> tile_at g' y x = tile_at ?g1 y x"
    using Suc.IH [OF w a b c f(2)] by blast
  have fr: "tile_at g' y x = tile_at g y x"
    if i: "in_grid y x" and d: "\<forall>j<Suc n. (y, x) \<noteq> sample rnd minY (k + 2 * j)" for y x
  proof -
    have "\<forall>j<n. (y, x) \<noteq> sample rnd minY (k + 2 + 2 * j)"
      using d by (auto simp add: less_Suc_eq_0_disj)
    then have "tile_at g' y x = tile_at ?g1 y x" using g'(3) i by blast
    also have "\<dots> = tile_at g y x"
    proof (rule tile_at_set_tile_other [OF Suc.prems(1) s0(1) i])
      show "(y, x) \<noteq> (?ry, ?rx)"
        using d [rule_format, of 0] by simp
    qed
    finally show ?thesis .
  qed
  show ?case
    using step g'(1,2) fr by (intro exI [of _ g']) simp
qed

lemma worm_break0:
  "rnd k = 0 \<Longrightarrow> rnd (k + 1) = 0 \<Longrightarrow> worm (Suc n) 0 cy rnd k g = (carve_disc 0 cy 2 g, k + 3)"
  by (simp add: disc_radius_def Let_def)

lemma caves_step0:
  assumes "\<forall>i<5. rnd (k + i) = 0"
  shows "caves (Suc n) rnd k g = caves n rnd (k + 6) (carve_disc 0 15 2 g)"
proof -
  have r: "rnd k = 0" "rnd (k + 1) = 0" "rnd (k + 2) = 0" "rnd (k + 3) = 0" "rnd (k + 3 + 1) = 0"
    using assms [rule_format, of 0] assms [rule_format, of 1] assms [rule_format, of 2]
      assms [rule_format, of 3] assms [rule_format, of 4]
    by (simp_all add: numeral_eq_Suc)
  have l: "nat (walk_length 0) = 20" by (simp add: walk_length_def)
  have w: "worm 20 0 15 rnd (k + 3) g = (carve_disc 0 15 2 g, k + 6)"
    using worm_break0 [OF r(4) r(5), of 19 15 g] by (simp del: worm.simps)
  show ?thesis
    using r(1,2,3) by (simp add: Let_def GRID_WIDTH_def GRID_HEIGHT_def l w del: worm.simps)
qed

lemma caves_all0:
  "\<forall>i < k + 6 * n. rnd i = 0 \<Longrightarrow> caves n rnd k g = ((carve_disc 0 15 2 ^^ n) g, k + 6 * n)"
proof (induction n arbitrary: k g)
  case 0
  show ?case by simp
next
  case (Suc n)
  have "\<forall>i<5. rnd (k + i) = 0" using Suc.prems by simp
  then have "caves (Suc n) rnd k g = caves n rnd (k + 6) (carve_disc 0 15 2 g)"
    by (rule caves_step0)
  also have "\<dots> = ((carve_disc 0 15 2 ^^ n) (carve_disc 0 15 2 g), k + 6 + 6 * n)"
    using Suc.prems by (intro Suc.IH) simp
  finally show ?case by (simp add: funpow_swap1)
qed

lemma deep_rows:
  assumes "wf_grid g"
  shows "wf_grid ((carve_disc 0 15 2 ^^ n) g)
       \<and> (\<forall>y x. in_grid y x \<and> 18 \<le> y \<longrightarrow> tile_at ((carve_disc 0 15 2 ^^ n) g) y x = tile_at g y x)"
proof (induction n)
  case 0
  show ?case using assms by simp
next
  case (Suc n)
  let ?h = "(carve_disc 0 15 2 ^^ n) g"
  have w: "wf_grid ?h" using Suc.IH by simp
  have "tile_at (carve_disc 0 15 2 ?h) y x = tile_at ?h y x" if i: "in_grid y x" and y: "18 \<le> y" for y x
  proof -
    have "3 \<le> \<bar>real_of_int (y - 15)\<bar>" using y by simp
    then have "\<not> hypot (real_of_int (x - 0)) (real_of_int (y - 15)) \<le> real_of_int 2"
      using abs_le_hypot2 [of "real_of_int (y - 15)" "real_of_int (x - 0)"] by linarith
    then show ?thesis by (simp add: carve_disc_tile [OF w i])
  qed
  then show ?case using Suc.IH w by (simp add: carve_disc_wf)
qed

lemma gen_sample_shard: "j < 15 \<Longrightarrow> sample gen_draws 12 (90 + 2 * j) = (59, int j + 1)"
proof -
  assume j: "j < 15"
  have a: "gen_draws (90 + 2 * j) = (2 * real j + 3) / 80" "gen_draws (91 + 2 * j) = 79 / 80"
    using j by (simp_all add: gen_draws_def)
  have "\<lfloor>(2 * real j + 3) / 80 * 40\<rfloor> = int j + 1"
    by (rule floor_unique) simp_all
  moreover have "\<lfloor>(79::real) / 80 * 48\<rfloor> = 47" by simp
  ultimately show ?thesis
    by (simp add: sample_def a GRID_WIDTH_def GRID_HEIGHT_def)
qed

lemma gen_sample_gold: "j < 5 \<Longrightarrow> sample gen_draws 20 (120 + 2 * j) = (59, int j + 16)"
proof -
  assume j: "j < 5"
  have a: "gen_draws (120 + 2 * j) = (2 * real j + 33) / 80" "gen_draws (121 + 2 * j) = 79 / 80"
    using j by (simp_all add: gen_draws_def)
  have "\<lfloor>(2 * real j + 33) / 80 * 40\<rfloor> = int j + 16"
    by (rule floor_unique) simp_all
  moreover have "\<lfloor>(79::real) / 80 * 40\<rfloor> = 39" by simp
  ultimately show ?thesis
    by (simp add: sample_def a GRID_WIDTH_def GRID_HEIGHT_def)
qed

lemma gen_sample_diamond: "j < 3 \<Longrightarrow> sample gen_draws 40 (130 + 2 * j) = (59, int j + 21)"
proof -
  assume j: "j < 3"
  have a: "gen_draws (130 + 2 * j) = (2 * real j + 43) / 80" "gen_draws (131 + 2 * j) = 79 / 80"
    using j by (simp_all add: gen_draws_def)
  have "\<lfloor>(2 * real j + 43) / 80 * 40\<rfloor> = int j + 21"
    by (rule floor_unique) simp_all
  moreover have "\<lfloor>(79::real) / 80 * 20\<rfloor> = 19" by simp
  ultimately show ?thesis
    by (simp add: sample_def a GRID_WIDTH_def GRID_HEIGHT_def)
qed

lemma generation_returns: "\<exists>g. generate_grid 15 gen_draws = Some (g, 136)"
proof -
  let ?g1 = "(carve_disc 0 15 2 ^^ 15) fill_grid"
  have c: "caves 15 gen_draws 0 fill_grid = (?g1, 90)"
    using caves_all0 [of 0 15 gen_draws fill_grid] by (simp add: gen_draws_def)
  note d = deep_rows [OF wf_fill_grid, of 15]
  have w1: "wf_grid ?g1" using d by simp
  have stone: "ttype (tile_at ?g1 59 x) = STONE" if "0 \<le> x" "x < 40" for x
  proof -
    have i: "in_grid 59 x" using that by (simp add: in_grid_def GRID_WIDTH_def GRID_HEIGHT_def)
    then have "tile_at ?g1 59 x = tile_at fill_grid 59 x" using d by simp
    then show ?thesis using i by (simp add: fill_layers new_tile_def)
  qed
  have row: "in_grid 59 x" if "0 \<le> x" "x < 40" for x
    using that by (simp add: in_grid_def GRID_WIDTH_def GRID_HEIGHT_def)
  have a1: "\<forall>j<15. in_grid (fst (sample gen_draws 12 (90 + 2 * j))) (snd (sample gen_draws 12 (90 + 2 * j)))
      \<and> ttype (tile_at ?g1 (fst (sample gen_draws 12 (90 + 2 * j))) (snd (sample gen_draws 12 (90 + 2 * j)))) = STONE"
    by (simp add: gen_sample_shard row stone)
  have b1: "\<forall>i<15. \<forall>j<15. i \<noteq> j \<longrightarrow> sample gen_draws 12 (90 + 2 * i) \<noteq> sample gen_draws 12 (90 + 2 * j)"
    by (simp add: gen_sample_shard)
  obtain g2 where g2: "placeResource 15 SHARD 15 12 0 gen_draws 90 ?g1 = Some (g2, 90 + 2 * 15)"
    "wf_grid g2"
    "\<forall>y x. in_grid y x \<and> (\<forall>j<15. (y, x) \<noteq> sample gen_draws 12 (90 + 2 * j)) \<longrightarrow> tile_at g2 y x = tile_at ?g1 y x"
    using place_ok [OF w1 a1 b1, of 15 0 15 SHARD] by auto
  have stone2: "ttype (tile_at g2 59 x) = STONE" if "16 \<le> x" "x < 40" for x
  proof -
    have "\<forall>j<15. (59, x) \<noteq> sample gen_draws 12 (90 + 2 * j)"
      using that by (simp add: gen_sample_shard)
    then have "tile_at g2 59 x = tile_at ?g1 59 x"
      using g2(3) [rule_format, of 59 x] that by (simp add: row)
    then show ?thesis using that by (simp add: stone)
  qed
  have a2: "\<forall>j<5. in_grid (fst (sample gen_draws 20 (120 + 2 * j))) (snd (sample gen_draws 20 (120 + 2 * j)))
      \<and> ttype (tile_at g2 (fst (sample gen_draws 20 (120 + 2 * j))) (snd (sample gen_draws 20 (120 + 2 * j)))) = STONE"
    by (simp add: gen_sample_gold row stone2)
  have b2: "\<forall>i<5. \<forall>j<5. i \<noteq> j \<longrightarrow> sample gen_draws 20 (120 + 2 * i) \<noteq> sample gen_draws 20 (120 + 2 * j)"
    by (simp add: gen_sample_gold)
  obtain g3 where g3: "placeResource 15 GOLD 5 20 0 gen_draws 120 g2 = Some (g3, 120 + 2 * 5)"
    "wf_grid g3"
    "\<forall>y x. in_grid y x \<and> (\<forall>j<5. (y, x) \<noteq> sample gen_draws 20 (120 + 2 * j)) \<longrightarrow> tile_at g3 y x = tile_at g2 y x"
    using place_ok [OF g2(2) a2 b2, of 5 0 15 GOLD] by auto
  have stone3: "ttype (tile_at g3 59 x) = STONE" if "21 \<le> x" "x < 40" for x
  proof -
    have "\<forall>j<5. (59, x) \<noteq> sample gen_draws 20 (120 + 2 * j)"
      using that by (simp add: gen_sample_gold)
    then have "tile_at g3 59 x = tile_at g2 59 x"
      using g3(3) [rule_format, of 59 x] that by (simp add: row)
    then show ?thesis using that by (simp add: stone2)
  qed
  have a3: "\<forall>j<3. in_grid (fst (sample gen_draws 40 (130 + 2 * j))) (snd (sample gen_draws 40 (130 + 2 * j)))
      \<and> ttype (tile_at g3 (fst (sample gen_draws 40 (130 + 2 * j))) (snd (sample gen_draws 40 (130 + 2 * j)))) = STONE"
    by (simp add: gen_sample_diamond row stone3)
  have b3: "\<forall>i<3. \<forall>j<3. i \<noteq> j \<longrightarrow> sample gen_draws 40 (130 + 2 * i) \<noteq> sample gen_draws 40 (130 + 2 * j)"
    by (simp add: gen_sample_diamond)
  obtain g4 where g4: "placeResource 15 DIAMOND 3 40 0 gen_draws 130 g3 = Some (g4, 130 + 2 * 3)"
    using place_ok [OF g3(2) a3 b3, of 3 0 15 DIAMOND] by auto
  show ?thesis
    using c g2(1) g3(1) g4
    by (simp add: generate_grid_def GOLD_COUNT_def DIAMOND_COUNT_def del: placeResource.simps)
qed


subsection \<open>Walks as lists of discs\<close>

lemma carve_all_Nil [simp]: "carve_all [] g = g"
  by (simp add: carve_all_def)

lemma carve_all_Cons [simp]: "carve_all ((cx, cy, r) # ds) g = carve_all ds (carve_disc cx cy r g)"
  by (simp add: carve_all_def)

lemma carve_all_append [simp]: "carve_all (ds @ es) g = carve_all es (carve_all ds g)"
  by (simp add: carve_all_def)

lemma carve_all_tile:
  assumes "in_grid y x"
  shows "wf_grid g \<Longrightarrow>
     wf_grid (carve_all ds g)
     \<and> tile_at (carve_all ds g) y x =
         (if 10 \<le> y \<and> list_ex (in_disc y x) ds then air_tile else tile_at g y x)"
proof (induction ds arbitrary: g)
  case Nil
  then show ?case by simp
next
  case (Cons d ds)
  obtain cx cy r where d: "d = (cx, cy, r)" by (cases d)
  have w: "wf_grid (carve_disc cx cy r g)" by (rule carve_disc_wf [OF Cons.prems])
  have i: "in_disc y x d \<longleftrightarrow> hypot (real_of_int (x - cx)) (real_of_int (y - cy)) \<le> real_of_int r"
    by (simp add: d in_disc_def)
  have t1: "tile_at (carve_disc cx cy r g) y x = (if 10 \<le> y \<and> in_disc y x d then air_tile else tile_at g y x)"
    unfolding i by (rule carve_disc_tile [OF Cons.prems assms])
  have "carve_all (d # ds) g = carve_all ds (carve_disc cx cy r g)"
    by (simp add: d)
  then show ?case
    using Cons.IH [OF w] t1 by auto
qed

lemma worm_discs:
  "worm n cx cy rnd k g =
     (carve_all (walk_discs n cx cy rnd k) g, k + 3 * length (walk_discs n cx cy rnd k))"
proof (induction n arbitrary: cx cy k g)
  case 0
  show ?case by simp
next
  case (Suc n)
  show ?case
    by (simp add: Let_def Suc.IH not_le not_less)
qed

lemma caves_walks:
  "caves w rnd k g =
     (carve_all (concat (cave_walks w rnd k)) g, k + 3 * w + 3 * length (concat (cave_walks w rnd k)))"
proof (induction w arbitrary: k g)
  case 0
  show ?case by simp
next
  case (Suc w)
  show ?case
    by (simp add: Let_def worm_discs Suc.IH del: worm.simps walk_discs.simps)
qed

lemma walk_discs_length: "length (walk_discs n cx cy rnd k) \<le> n"
  by (induction n arbitrary: cx cy k) (simp_all add: Let_def)

lemma walk_discs_first:
  "walk_discs (Suc n) cx cy rnd k \<noteq> [] \<and> hd (walk_discs (Suc n) cx cy rnd k) = (cx, cy, disc_radius (rnd k))"
  by simp

lemma walk_discs_ok:
  assumes "unit_draws rnd"
  shows "in_region cx cy \<Longrightarrow> list_all walk_disc_ok (walk_discs n cx cy rnd k)"
proof (induction n arbitrary: cx cy k)
  case 0
  show ?case by simp
next
  case (Suc n)
  have r: "disc_radius (rnd k) = 2 \<or> disc_radius (rnd k) = 3"
    using assms by (intro disc_radius_cases) (simp_all add: unit_draws_def)
  show ?case
    using r Suc.prems Suc.IH by (simp add: Let_def walk_disc_ok_def in_region_def)
qed

lemma drift_x: "unit_draws rnd \<Longrightarrow> \<bar>\<lfloor>rnd i * 5\<rfloor> - 2\<bar> \<le> 2"
proof -
  assume "unit_draws rnd"
  then have "0 \<le> rnd i" "rnd i < 1" by (simp_all add: unit_draws_def)
  then have "0 \<le> \<lfloor>rnd i * 5\<rfloor>" "\<lfloor>rnd i * 5\<rfloor> < 5" by (simp_all add: floor_less_iff)
  then show ?thesis by linarith
qed

lemma drift_y: "unit_draws rnd \<Longrightarrow> \<bar>\<lfloor>rnd i * 3\<rfloor> - 1\<bar> \<le> 1"
proof -
  assume "unit_draws rnd"
  then have "0 \<le> rnd i" "rnd i < 1" by (simp_all add: unit_draws_def)
  then have "0 \<le> \<lfloor>rnd i * 3\<rfloor>" "\<lfloor>rnd i * 3\<rfloor> < 3" by (simp_all add: floor_less_iff)
  then show ?thesis by linarith
qed

lemma walk_discs_drift:
  assumes "unit_draws rnd"
  shows "list_all (\<lambda>(px, py, r). \<bar>px - cx\<bar> \<le> 2 * (int n - 1) \<and> \<bar>py - cy\<bar> \<le> int n - 1 \<and> r \<le> 3)
           (walk_discs n cx cy rnd k)"
proof (induction n arbitrary: cx cy k)
  case 0
  show ?case by simp
next
  case (Suc n)
  let ?cx1 = "cx + (\<lfloor>rnd (k + 1) * 5\<rfloor> - 2)" and ?cy1 = "cy + (\<lfloor>rnd (k + 2) * 3\<rfloor> - 1)"
  have r: "disc_radius (rnd k) \<le> 3"
    using disc_radius_cases [of "rnd k"] assms by (auto simp add: unit_draws_def)
  note d = drift_x [OF assms, of "k + 1"] drift_y [OF assms, of "k + 2"]
  have rest: "list_all (\<lambda>(px, py, r). \<bar>px - cx\<bar> \<le> 2 * (int (Suc n) - 1) \<and> \<bar>py - cy\<bar> \<le> int (Suc n) - 1 \<and> r \<le> 3)
           (walk_discs n ?cx1 ?cy1 rnd (k + 3))"
  proof -
    have "list_all (\<lambda>(px, py, r). \<bar>px - ?cx1\<bar> \<le> 2 * (int n - 1) \<and> \<bar>py - ?cy1\<bar> \<le> int n - 1 \<and> r \<le> 3)
           (walk_discs n ?cx1 ?cy1 rnd (k + 3))"
      by (rule Suc.IH)
    then show ?thesis
      unfolding list_all_iff using d by (auto simp del: walk_discs.simps)
  qed
  show ?case
    using r rest by (simp add: Let_def del: walk_discs.simps(2)) (simp add: Let_def)
qed

lemma start_in_region:
  assumes "unit_draws rnd"
  shows "in_region \<lfloor>rnd i * real_of_int GRID_WIDTH\<rfloor> (\<lfloor>rnd j * real_of_int (GRID_HEIGHT - 15)\<rfloor> + 15)"
proof -
  have "0 \<le> rnd i" "rnd i < 1" "0 \<le> rnd j" "rnd j < 1"
    using assms by (simp_all add: unit_draws_def)
  then have "0 \<le> \<lfloor>rnd i * 40\<rfloor>" "\<lfloor>rnd i * 40\<rfloor> < 40" "0 \<le> \<lfloor>rnd j * 45\<rfloor>" "\<lfloor>rnd j * 45\<rfloor> < 45"
    by (simp_all add: floor_less_iff)
  then show ?thesis by (simp add: in_region_def GRID_WIDTH_def GRID_HEIGHT_def)
qed

lemma cave_walks_length: "length (cave_walks w rnd k) = w"
  by (induction w arbitrary: k) (simp_all add: Let_def)

lemma cave_walks_ok:
  assumes "unit_draws rnd"
  shows "list_all (\<lambda>ds. ds \<noteq> [] \<and> length ds \<le> 59 \<and> list_all walk_disc_ok ds) (cave_walks w rnd k)"
proof (induction w arbitrary: k)
  case 0
  show ?case by simp
next
  case (Suc w)
  let ?n = "nat (walk_length (rnd (k + 2)))"
  let ?cx = "\<lfloor>rnd k * real_of_int GRID_WIDTH\<rfloor>"
  let ?cy = "\<lfloor>rnd (k + 1) * real_of_int (GRID_HEIGHT - 15)\<rfloor> + 15"
  let ?ds = "walk_discs ?n ?cx ?cy rnd (k + 3)"
  have l: "20 \<le> walk_length (rnd (k + 2)) \<and> walk_length (rnd (k + 2)) \<le> 59"
    using assms by (intro walk_length_bounds) (simp_all add: unit_draws_def)
  then obtain m where m: "?n = Suc m" by (cases ?n) simp_all
  have a: "?ds \<noteq> []" unfolding m by simp
  have b: "length ?ds \<le> 59"
    using walk_discs_length [of ?n ?cx ?cy rnd "k + 3"] l by linarith
  have c: "list_all walk_disc_ok ?ds"
    by (rule walk_discs_ok [OF assms start_in_region [OF assms]])
  show ?case
    using a b c Suc.IH by (simp add: Let_def del: walk_discs.simps)
qed

lemma worm_tile:
  assumes "wf_grid g" and "in_grid y x"
  shows "tile_at (fst (worm n cx cy rnd k g)) y x =
     (if 10 \<le> y \<and> list_ex (in_disc y x) (walk_discs n cx cy rnd k) then air_tile else tile_at g y x)"
  using carve_all_tile [OF assms(2,1), of "walk_discs n cx cy rnd k"]
  by (simp add: worm_discs del: worm.simps)

lemma caves_tile:
  assumes "wf_grid g" and "in_grid y x"
  shows "tile_at (fst (caves w rnd k g)) y x =
     (if 10 \<le> y \<and> list_ex (in_disc y x) (concat (cave_walks w rnd k)) then air_tile else tile_at g y x)"
  using carve_all_tile [OF assms(2,1), of "concat (cave_walks w rnd k)"]
  by (simp add: caves_walks del: caves.simps)

lemma worm_carves_first:
  assumes "0 < n" and "wf_grid g" and "in_grid y x" and "10 \<le> y"
    and "hypot (real_of_int (x - cx)) (real_of_int (y - cy)) \<le> real_of_int (disc_radius (rnd k))"
  shows "tile_at (fst (worm n cx cy rnd k g)) y x = air_tile"
proof -
  obtain m where m: "n = Suc m" using assms(1) by (cases n) simp_all
  have "in_disc y x (cx, cy, disc_radius (rnd k))"
    using assms(5) by (simp add: in_disc_def)
  then have "list_ex (in_disc y x) (walk_discs n cx cy rnd k)"
    unfolding m by simp
  then show ?thesis
    using assms(4) by (simp add: worm_tile [OF assms(2,3)] del: worm.simps)
qed

lemma worm_local:
  assumes "unit_draws rnd" and "wf_grid g" and "in_grid y x"
    and "tile_at (fst (worm n cx cy rnd k g)) y x \<noteq> tile_at g y x"
  shows "10 \<le> y \<and> \<bar>x - cx\<bar> \<le> 2 * int n + 1 \<and> \<bar>y - cy\<bar> \<le> int n + 2"
proof -
  have c: "10 \<le> y" "list_ex (in_disc y x) (walk_discs n cx cy rnd k)"
    using assms(4) by (auto simp add: worm_tile [OF assms(2,3)] simp del: worm.simps split: if_splits)
  then obtain px py r where d: "(px, py, r) \<in> set (walk_discs n cx cy rnd k)"
    and h: "hypot (real_of_int (x - px)) (real_of_int (y - py)) \<le> real_of_int r"
    by (auto simp add: list_ex_iff in_disc_def)
  have b: "\<bar>px - cx\<bar> \<le> 2 * (int n - 1)" "\<bar>py - cy\<bar> \<le> int n - 1" "r \<le> 3"
    using walk_discs_drift [OF assms(1), of cx n cy k] d by (auto simp add: list_all_iff)
  have "\<bar>real_of_int (x - px)\<bar> \<le> real_of_int r"
    using h abs_le_hypot1 [of "real_of_int (x - px)" "real_of_int (y - py)"] by linarith
  moreover have "\<bar>real_of_int (y - py)\<bar> \<le> real_of_int r"
    using h abs_le_hypot2 [of "real_of_int (y - py)" "real_of_int (x - px)"] by linarith
  ultimately have "\<bar>x - px\<bar> \<le> r" "\<bar>y - py\<bar> \<le> r" by linarith+
  then show ?thesis using b c(1) unfolding abs_le_iff by auto
qed

lemma concat_length_bounds:
  "list_all (\<lambda>ds. ds \<noteq> [] \<and> length ds \<le> 59 \<and> P ds) ws \<Longrightarrow>
   length ws \<le> length (concat ws) \<and> length (concat ws) \<le> 59 * length ws"
proof (induction ws)
  case Nil
  show ?case by simp
next
  case (Cons a ws)
  then have "1 \<le> length a" "length a \<le> 59" by (simp_all add: Suc_le_eq)
  then show ?case using Cons by simp
qed

lemma caves_draws:
  assumes "unit_draws rnd"
  shows "k + 6 * w \<le> snd (caves w rnd k g) \<and> snd (caves w rnd k g) \<le> k + 180 * w"
  using concat_length_bounds [OF cave_walks_ok [OF assms, of w k]]
  by (simp add: caves_walks cave_walks_length del: caves.simps)

lemma finite_ore_cells: "finite (ore_cells tt g)"
proof -
  have "ore_cells tt g \<subseteq> {0..59} \<times> {0..39}"
    by (auto simp add: ore_cells_def in_grid_def GRID_WIDTH_def GRID_HEIGHT_def)
  then show ?thesis by (rule finite_subset) simp
qed

lemma placeResource_effect:
  assumes "unit_draws rnd" and "0 \<le> minY" and "minY < GRID_HEIGHT" and "tt \<noteq> STONE" and "tt \<noteq> DIRT"
  shows "wf_grid g \<Longrightarrow> placed \<le> count \<Longrightarrow>
     placeResource fuel tt count minY placed rnd k g = Some (g', k') \<Longrightarrow>
     wf_grid g'
     \<and> (\<forall>y x. in_grid y x \<longrightarrow>
           tile_at g' y x = tile_at g y x
           \<or> (minY \<le> y \<and> (ttype (tile_at g y x) = STONE \<or> ttype (tile_at g y x) = DIRT)
               \<and> tile_at g' y x = new_tile tt))
     \<and> card (ore_cells tt g') = card (ore_cells tt g) + nat (count - placed)"
proof (induction fuel arbitrary: placed k g)
  case 0
  then show ?case by (simp split: if_splits)
next
  case (Suc fuel)
  note s = sample_in_grid [OF assms(1,2,3), of k]
  let ?ry = "fst (sample rnd minY k)" and ?rx = "snd (sample rnd minY k)"
  let ?g1 = "set_tile g ?ry ?rx (new_tile tt)"
  show ?case
  proof (cases "placed < count")
    case False
    then show ?thesis using Suc.prems by (simp add: placeResource_Suc del: placeResource.simps)
  next
    case True
    show ?thesis
    proof (cases "ttype (tile_at g ?ry ?rx) = STONE \<or> ttype (tile_at g ?ry ?rx) = DIRT")
      case False
      then have "placeResource fuel tt count minY placed rnd (k + 2) g = Some (g', k')"
        using True Suc.prems(3) by (simp add: placeResource_Suc del: placeResource.simps)
      then show ?thesis by (rule Suc.IH [OF Suc.prems(1,2)])
    next
      case st: True
      have w: "wf_grid ?g1" by (rule wf_set_tile [OF Suc.prems(1)])
      have p: "placed + 1 \<le> count" using True by simp
      have "placeResource fuel tt count minY (placed + 1) rnd (k + 2) ?g1 = Some (g', k')"
        using True st Suc.prems(3) by (simp add: placeResource_Suc del: placeResource.simps)
      then have ih: "wf_grid g'"
        "\<forall>y x. in_grid y x \<longrightarrow>
           tile_at g' y x = tile_at ?g1 y x
           \<or> (minY \<le> y \<and> (ttype (tile_at ?g1 y x) = STONE \<or> ttype (tile_at ?g1 y x) = DIRT)
               \<and> tile_at g' y x = new_tile tt)"
        "card (ore_cells tt g') = card (ore_cells tt ?g1) + nat (count - (placed + 1))"
        using Suc.IH [OF w p] by blast+
      have t1: "tile_at ?g1 y x = (if y = ?ry \<and> x = ?rx then new_tile tt else tile_at g y x)"
        if "in_grid y x" for y x
        using that s by (simp add: tile_at_set_tile [OF Suc.prems(1)])
      have fr: "tile_at g' y x = tile_at g y x
           \<or> (minY \<le> y \<and> (ttype (tile_at g y x) = STONE \<or> ttype (tile_at g y x) = DIRT)
               \<and> tile_at g' y x = new_tile tt)" if i: "in_grid y x" for y x
        using ih(2) [rule_format, OF i] t1 [OF i] st s assms(4,5)
        by (auto simp add: new_tile_def split: if_splits)
      have t2: "ttype (tile_at ?g1 y x) = tt \<longleftrightarrow> (y = ?ry \<and> x = ?rx) \<or> ttype (tile_at g y x) = tt"
        if "in_grid y x" for y x
        using t1 [OF that] by (cases "y = ?ry \<and> x = ?rx") (auto simp add: new_tile_def)
      have "ore_cells tt ?g1 = insert (?ry, ?rx) (ore_cells tt g)"
      proof (rule set_eqI)
        fix p :: "int \<times> int"
        obtain y x where p: "p = (y, x)" by (cases p)
        show "p \<in> ore_cells tt ?g1 \<longleftrightarrow> p \<in> insert (?ry, ?rx) (ore_cells tt g)"
        proof (cases "in_grid y x")
          case True
          then show ?thesis using t2 [OF True] by (auto simp add: p ore_cells_def prod_eq_iff)
        next
          case False
          then have "y \<noteq> ?ry \<or> x \<noteq> ?rx" using s by auto
          then show ?thesis using False by (auto simp add: p ore_cells_def prod_eq_iff)
        qed
      qed
      moreover have "(?ry, ?rx) \<notin> ore_cells tt g"
        using st assms(4,5) by (auto simp add: ore_cells_def)
      ultimately have "card (ore_cells tt ?g1) = Suc (card (ore_cells tt g))"
        by (simp add: finite_ore_cells)
      then have "card (ore_cells tt g') = card (ore_cells tt g) + nat (count - placed)"
        using ih(3) True by (simp add: nat_diff_distrib Suc_nat_eq_nat_zadd1 algebra_simps) 
      then show ?thesis using ih(1) fr by blast
    qed
  qed
qed

lemma ore_cells_other:
  assumes "\<forall>y x. in_grid y x \<longrightarrow>
           tile_at b y x = tile_at a y x
           \<or> (minY \<le> y \<and> (ttype (tile_at a y x) = STONE \<or> ttype (tile_at a y x) = DIRT)
               \<and> tile_at b y x = new_tile tt)"
    and "tt' \<noteq> tt" and "tt' \<noteq> STONE" and "tt' \<noteq> DIRT"
  shows "ore_cells tt' b = ore_cells tt' a"
proof (rule set_eqI)
  fix p :: "int \<times> int"
  obtain y x where p: "p = (y, x)" by (cases p)
  show "p \<in> ore_cells tt' b \<longleftrightarrow> p \<in> ore_cells tt' a"
  proof (cases "in_grid y x")
    case True
    then show ?thesis
      using assms(1) [rule_format, OF True] assms(2,3,4)
      by (auto simp add: p ore_cells_def new_tile_def)
  next
    case False
    then show ?thesis by (simp add: p ore_cells_def)
  qed
qed

lemma caves_fill_tile:
  assumes "in_grid y x"
  shows "tile_at (fst (caves w rnd k fill_grid)) y x =
     (if 10 \<le> y \<and> list_ex (in_disc y x) (concat (cave_walks w rnd k)) then air_tile
      else new_tile (if y \<le> 4 then AIR else if y = 5 then GRASS else if y \<le> 9 then DIRT else STONE))"
  by (simp add: caves_tile [OF wf_fill_grid assms] fill_layers [OF assms] del: caves.simps)

lemma caves_fill_no_ore:
  assumes "tt = SHARD \<or> tt = GOLD \<or> tt = DIAMOND"
  shows "ore_cells tt (fst (caves w rnd k fill_grid)) = {}"
  using assms by (auto simp add: ore_cells_def caves_fill_tile air_tile_def new_tile_def simp del: caves.simps)

lemma generate_grid_world:
  assumes "unit_draws rnd" and "generate_grid fuel rnd = Some (g', k')"
  shows "wf_grid g'
     \<and> (\<forall>y x. in_grid y x \<longrightarrow>
           tile_at g' y x = tile_at (fst (caves 15 rnd 0 fill_grid)) y x
           \<or> (12 \<le> y \<and> ttype (tile_at (fst (caves 15 rnd 0 fill_grid)) y x) = STONE
               \<and> (tile_at g' y x = new_tile SHARD \<or> tile_at g' y x = new_tile GOLD
                   \<or> tile_at g' y x = new_tile DIAMOND)))
     \<and> card (ore_cells SHARD g') = 15 \<and> card (ore_cells GOLD g') = 5 \<and> card (ore_cells DIAMOND g') = 3"
proof -
  let ?c = "caves 15 rnd 0 fill_grid"
  obtain g2 k2 g3 k3 where
    p1: "placeResource fuel SHARD 15 12 0 rnd (snd ?c) (fst ?c) = Some (g2, k2)" and
    p2: "placeResource fuel GOLD 5 20 0 rnd k2 g2 = Some (g3, k3)" and
    p3: "placeResource fuel DIAMOND 3 40 0 rnd k3 g3 = Some (g', k')"
    using assms(2)
    by (auto simp add: generate_grid_def case_prod_beta GOLD_COUNT_def DIAMOND_COUNT_def
        split: option.splits simp del: caves.simps placeResource.simps)
  have w1: "wf_grid (fst ?c)"
    using only_carved_caves [OF wf_fill_grid, of 15 rnd 0] by (simp only: only_carved_def)
  have h: "(12::int) < GRID_HEIGHT" "(20::int) < GRID_HEIGHT" "(40::int) < GRID_HEIGHT"
    by (simp_all add: GRID_HEIGHT_def)
  note e1 = placeResource_effect [OF assms(1) _ h(1) _ _ w1 _ p1]
  have w2: "wf_grid g2"
    and f1: "\<forall>y x. in_grid y x \<longrightarrow> tile_at g2 y x = tile_at (fst ?c) y x
           \<or> (12 \<le> y \<and> (ttype (tile_at (fst ?c) y x) = STONE \<or> ttype (tile_at (fst ?c) y x) = DIRT)
               \<and> tile_at g2 y x = new_tile SHARD)"
    and c1: "card (ore_cells SHARD g2) = card (ore_cells SHARD (fst ?c)) + nat (15 - 0)"
    using e1 by simp_all
  note e2 = placeResource_effect [OF assms(1) _ h(2) _ _ w2 _ p2]
  have w3: "wf_grid g3"
    and f2: "\<forall>y x. in_grid y x \<longrightarrow> tile_at g3 y x = tile_at g2 y x
           \<or> (20 \<le> y \<and> (ttype (tile_at g2 y x) = STONE \<or> ttype (tile_at g2 y x) = DIRT)
               \<and> tile_at g3 y x = new_tile GOLD)"
    and c2: "card (ore_cells GOLD g3) = card (ore_cells GOLD g2) + nat (5 - 0)"
    using e2 by simp_all
  note e3 = placeResource_effect [OF assms(1) _ h(3) _ _ w3 _ p3]
  have w4: "wf_grid g'"
    and f3: "\<forall>y x. in_grid y x \<longrightarrow> tile_at g' y x = tile_at g3 y x
           \<or> (40 \<le> y \<and> (ttype (tile_at g3 y x) = STONE \<or> ttype (tile_at g3 y x) = DIRT)
               \<and> tile_at g' y x = new_tile DIAMOND)"
    and c3: "card (ore_cells DIAMOND g') = card (ore_cells DIAMOND g3) + nat (3 - 0)"
    using e3 by simp_all
  have tiles: "tile_at g' y x = tile_at (fst ?c) y x
           \<or> (12 \<le> y \<and> ttype (tile_at (fst ?c) y x) = STONE
               \<and> (tile_at g' y x = new_tile SHARD \<or> tile_at g' y x = new_tile GOLD
                   \<or> tile_at g' y x = new_tile DIAMOND))" if i: "in_grid y x" for y x
  proof -
    have d: "12 \<le> y \<Longrightarrow> ttype (tile_at (fst ?c) y x) \<noteq> DIRT"
      by (simp add: caves_fill_tile [OF i] air_tile_def new_tile_def del: caves.simps)
    show ?thesis
      using f1 [rule_format, OF i] f2 [rule_format, OF i] f3 [rule_format, OF i] d
      by (auto simp add: new_tile_def)
  qed
  have s: "card (ore_cells SHARD g') = 15"
    using c1 ore_cells_other [OF f2, of SHARD] ore_cells_other [OF f3, of SHARD]
    by (simp add: caves_fill_no_ore del: caves.simps)
  have g: "card (ore_cells GOLD g') = 5"
    using c2 ore_cells_other [OF f1, of GOLD] ore_cells_other [OF f3, of GOLD]
    by (simp add: caves_fill_no_ore del: caves.simps)
  have dm: "card (ore_cells DIAMOND g') = 3"
    using c3 ore_cells_other [OF f1, of DIAMOND] ore_cells_other [OF f2, of DIAMOND]
    by (simp add: caves_fill_no_ore del: caves.simps)
  show ?thesis using w4 tiles s g dm by blast
qed

lemma generate_grid_air:
  assumes "unit_draws rnd" and "generate_grid fuel rnd = Some (g', k')" and "in_grid y x"
  shows "ttype (tile_at g' y x) = AIR \<longleftrightarrow>
           y \<le> 4 \<or> (10 \<le> y \<and> list_ex (in_disc y x) (concat (cave_walks 15 rnd 0)))"
proof -
  note w = generate_grid_world [OF assms(1,2), THEN conjunct2, THEN conjunct1, rule_format, OF assms(3)]
  have c: "ttype (tile_at (fst (caves 15 rnd 0 fill_grid)) y x) = AIR \<longleftrightarrow>
           y \<le> 4 \<or> (10 \<le> y \<and> list_ex (in_disc y x) (concat (cave_walks 15 rnd 0)))"
    by (auto simp add: caves_fill_tile [OF assms(3)] air_tile_def new_tile_def simp del: caves.simps)
  show ?thesis
    using w c by (auto simp add: new_tile_def)
qed

lemma walk_discs_radius:
  "j < length (walk_discs n cx cy rnd k) \<Longrightarrow>
   snd (snd (walk_discs n cx cy rnd k ! j)) = disc_radius (rnd (k + 3 * j))"
proof (induction n arbitrary: cx cy k j)
  case 0
  then show ?case by simp
next
  case (Suc n)
  show ?case
  proof (cases j)
    case 0
    then show ?thesis by simp
  next
    case (Suc i)
    let ?cx = "cx + (\<lfloor>rnd (k + 1) * 5\<rfloor> - 2)" and ?cy = "cy + (\<lfloor>rnd (k + 2) * 3\<rfloor> - 1)"
    have l: "i < length (walk_discs n ?cx ?cy rnd (k + 3))"
      and e: "walk_discs (Suc n) cx cy rnd k ! j = walk_discs n ?cx ?cy rnd (k + 3) ! i"
      using Suc.prems Suc by (auto simp add: Let_def split: if_splits)
    have a: "k + 3 + 3 * i = k + 3 * j" using Suc by simp
    show ?thesis using Suc.IH [OF l] unfolding e a .
  qed
qed

lemma walk_discs_stop:
  "length (walk_discs n cx cy rnd k) < n \<Longrightarrow>
   (case last (walk_discs n cx cy rnd k) of
      (px, py, r) \<Rightarrow>
        \<not> in_region (px + (\<lfloor>rnd (k + 3 * length (walk_discs n cx cy rnd k) - 2) * 5\<rfloor> - 2))
                     (py + (\<lfloor>rnd (k + 3 * length (walk_discs n cx cy rnd k) - 1) * 3\<rfloor> - 1)))"
proof (induction n arbitrary: cx cy k)
  case 0
  then show ?case by simp
next
  case (Suc n)
  let ?cx = "cx + (\<lfloor>rnd (k + 1) * 5\<rfloor> - 2)" and ?cy = "cy + (\<lfloor>rnd (k + 2) * 3\<rfloor> - 1)"
  show ?case
  proof (cases "in_region ?cx ?cy")
    case False
    then have "walk_discs (Suc n) cx cy rnd k = [(cx, cy, disc_radius (rnd k))]"
      by (auto simp add: Let_def in_region_def)
    then show ?thesis using False by simp
  next
    case True
    let ?r = "walk_discs n ?cx ?cy rnd (k + 3)"
    have e: "walk_discs (Suc n) cx cy rnd k = (cx, cy, disc_radius (rnd k)) # ?r"
      using True by (auto simp add: Let_def in_region_def)
    have l: "length ?r < n" using Suc.prems e by simp
    then have ne: "?r \<noteq> []" using Suc.IH [OF l] by (cases n) auto
    have p: "0 < length ?r" using ne by simp
    have a: "k + 3 + 3 * length ?r - 2 = k + 3 * length (walk_discs (Suc n) cx cy rnd k) - 2"
      and b: "k + 3 + 3 * length ?r - 1 = k + 3 * length (walk_discs (Suc n) cx cy rnd k) - 1"
      unfolding e by simp_all
    show ?thesis
      using Suc.IH [OF l] ne unfolding a b unfolding e by simp
  qed
qed

lemma cave_walks_nth:
  "i < w \<Longrightarrow>
   (let ds = cave_walks w rnd k ! i;
        s = k + 3 * i + 3 * length (concat (take i (cave_walks w rnd k)))
    in ds = walk_discs (nat (walk_length (rnd (s + 2)))) \<lfloor>rnd s * real_of_int GRID_WIDTH\<rfloor>
              (\<lfloor>rnd (s + 1) * real_of_int (GRID_HEIGHT - 15)\<rfloor> + 15) rnd (s + 3))"
proof (induction w arbitrary: k i)
  case 0
  then show ?case by simp
next
  case (Suc w)
  show ?case
  proof (cases i)
    case 0
    then show ?thesis by (simp add: Let_def)
  next
    case (Suc j)
    let ?d = "walk_discs (nat (walk_length (rnd (k + 2)))) \<lfloor>rnd k * real_of_int GRID_WIDTH\<rfloor>
                (\<lfloor>rnd (k + 1) * real_of_int (GRID_HEIGHT - 15)\<rfloor> + 15) rnd (k + 3)"
    have e: "cave_walks (Suc w) rnd k = ?d # cave_walks w rnd (k + 3 + 3 * length ?d)"
      by (simp add: Let_def)
    have j: "j < w" using Suc.prems Suc by simp
    have s: "k + 3 + 3 * length ?d + 3 * j + 3 * length (concat (take j (cave_walks w rnd (k + 3 + 3 * length ?d))))
           = k + 3 * i + 3 * length (concat (take i (cave_walks (Suc w) rnd k)))"
      unfolding e Suc by simp
    have n: "cave_walks (Suc w) rnd k ! i = cave_walks w rnd (k + 3 + 3 * length ?d) ! j"
      unfolding e Suc by simp
    show ?thesis
      using Suc.IH [OF j, of "k + 3 + 3 * length ?d"] unfolding Let_def s n .
  qed
qed

lemma half_unit: "unit_draws half"
  by (simp add: unit_draws_def half_def)

lemma half_walk: "walk_discs n 20 37 half k = replicate n (20, 37, 3)"
  by (induction n arbitrary: k)
     (simp_all add: half_def disc_radius_def GRID_WIDTH_def GRID_HEIGHT_def Let_def)

lemma half_walks: "cave_walks w half k = replicate w (replicate 40 (20, 37, 3))"
proof (induction w arbitrary: k)
  case 0
  show ?case by simp
next
  case (Suc w)
  have a: "\<lfloor>half k * real_of_int GRID_WIDTH\<rfloor> = 20"
    "\<lfloor>half (k + 1) * real_of_int (GRID_HEIGHT - 15)\<rfloor> + 15 = 37"
    "nat (walk_length (half (k + 2))) = 40"
    by (simp_all add: half_def walk_length_def GRID_WIDTH_def GRID_HEIGHT_def)
  show ?case
    unfolding cave_walks.simps a Let_def half_walk Suc.IH by simp
qed

lemma gen_walk: "walk_discs 20 0 15 gen_draws 3 = [(0, 15, 2)]"
proof -
  have "walk_discs (Suc 19) 0 15 gen_draws 3 = [(0, 15, 2)]"
    unfolding walk_discs.simps
    by (simp add: gen_draws_def disc_radius_def Let_def)
  then show ?thesis by simp
qed

lemma gen_first_walk: "hd (cave_walks 15 gen_draws 0) = [(0, 15, 2)] \<and> cave_walks 15 gen_draws 0 \<noteq> []"
proof -
  have a: "\<lfloor>gen_draws 0 * real_of_int GRID_WIDTH\<rfloor> = 0"
    "\<lfloor>gen_draws (0 + 1) * real_of_int (GRID_HEIGHT - 15)\<rfloor> + 15 = 15"
    "nat (walk_length (gen_draws (0 + 2))) = 20"
    by (simp_all add: gen_draws_def walk_length_def GRID_WIDTH_def GRID_HEIGHT_def)
  have "hd (cave_walks (Suc 14) gen_draws 0) = [(0, 15, 2)] \<and> cave_walks (Suc 14) gen_draws 0 \<noteq> []"
    unfolding cave_walks.simps a Let_def using gen_walk by simp
  then show ?thesis by simp
qed

lemma gen_disc: "list_ex (in_disc 15 0) (concat (cave_walks 15 gen_draws 0))"
proof -
  obtain ws where e: "cave_walks 15 gen_draws 0 = [(0, 15, 2)] # ws"
    using gen_first_walk by (cases "cave_walks 15 gen_draws 0") auto
  show ?thesis unfolding e by (simp add: in_disc_def hypot_def)
qed

section \<open>Properties\<close>

subsection \<open>Tiles\<close>

text \<open>
  C1 (fails on the code). The claim: every tile has \<open>0 \<le> durability \<le> maxDurability\<close>, and a
  tile mined down to AIR has \<open>durability = maxDurability = 0\<close>. The mining update only
  overwrites the type of the tile object: one press on the GRASS tile under the player's
  start position (durability 5, decrement 8) leaves an AIR tile with durability \<open>-3\<close> and
  maxDurability 5. Generation and cave carving, in contrast, store AIR tiles with both
  fields 0.
\<close>

theorem mined_out_tile_keeps_negative_durability:
  "tile_at (grid (demo_state None 200 [])) 5 20 = \<lparr>ttype = GRASS, durability = 5, maxDurability = 5\<rparr>
   \<and> tile_at (grid (handleCanvasClick 400 340 half (demo_state None 200 []))) 5 20
       = \<lparr>ttype = AIR, durability = - 3, maxDurability = 5\<rparr>"
proof -
  have g: "tile_at fill_grid 5 20 = \<lparr>ttype = GRASS, durability = 5, maxDurability = 5\<rparr>"
    by (simp add: fill_tile new_tile_def fill_type_def)
  have c: "handleCanvasClick 400 340 half (demo_state None 200 []) = mine 20 5 half 0 (demo_state None 200 [])"
    by (simp add: handleCanvasClick_def demo_state_def click_attack_def TILE_SIZE_def GRID_WIDTH_def
        GRID_HEIGHT_def init_player_def hypot_less_iff Let_def)
  have m: "grid (mine 20 5 half 0 (demo_state None 200 [])) =
           set_tile fill_grid 5 20 \<lparr>ttype = AIR, durability = - 3, maxDurability = 5\<rparr>"
    by (simp add: mine_def demo_state_def g Let_def award_def)
  have "tile_at (set_tile fill_grid 5 20 t) 5 20 = t" for t
    by (simp add: tile_at_def set_tile_def fill_grid_def GRID_WIDTH_def GRID_HEIGHT_def)
  then show ?thesis by (simp add: c m) (simp add: demo_state_def g)
qed

text \<open>
  C9. Mining a tile whose type is AIR returns the state as it was: grid, counters,
  particles, screen shake and every other field.
\<close>

theorem mine_air_is_noop:
  "ttype (tile_at (grid s) ty tx) = AIR \<Longrightarrow> mine tx ty rnd k s = s"
  by (simp add: mine_def)

theorem mine_air_is_noop_witness:
  "ttype (tile_at (grid (demo_state None 200 [])) 4 20) = AIR
   \<and> mine 20 4 half 0 (demo_state None 200 []) = demo_state None 200 []"
proof -
  have a: "ttype (tile_at (grid (demo_state None 200 [])) 4 20) = AIR"
    by (simp add: demo_state_def fill_tile new_tile_def fill_type_def)
  from mine_air_is_noop [OF a] a show ?thesis by simp
qed

subsection \<open>Contact damage\<close>

text \<open>
  C10. In one tick the player's health either stays or drops by exactly one contact
  damage (34), whatever the number of hostiles in contact; and when the game is being
  played, the cooldown is clear after its decay and at least one hostile is in contact,
  the health drops by exactly 34 once and the cooldown is reset to 60. The sample state
  has two hostiles in contact at the same time.
\<close>

theorem contact_damage_once_per_tick:
  "(health (player (update keys rnd s)) = health (player s)
      \<or> health (player (update keys rnd s)) = health (player s) - ENEMY_DAMAGE)
   \<and> (status s = PLAYING \<and> cooldown_clear (damageCooldown (moved_player keys s))
        \<and> (\<exists>e\<in>set (enemies s). in_contact (pos (moved_player keys s)) e)
      \<longrightarrow> health (player (update keys rnd s)) = health (player s) - ENEMY_DAMAGE
          \<and> damageCooldown (player (update keys rnd s)) = Some DAMAGE_COOLDOWN)"
proof (cases "status s = PLAYING")
  case True
  show ?thesis
    by (simp add: update_player [OF True])
next
  case False
  then show ?thesis by (simp add: update_idle)
qed

theorem contact_damage_once_per_tick_witness:
  "status (demo_state None 200 [demo_enemy 800 180 100, demo_enemy 800 180 100]) = PLAYING
   \<and> cooldown_clear (damageCooldown
        (moved_player {} (demo_state None 200 [demo_enemy 800 180 100, demo_enemy 800 180 100])))
   \<and> list_all (in_contact (pos (moved_player {}
        (demo_state None 200 [demo_enemy 800 180 100, demo_enemy 800 180 100]))))
        (enemies (demo_state None 200 [demo_enemy 800 180 100, demo_enemy 800 180 100]))
   \<and> health (player (update {} half
        (demo_state None 200 [demo_enemy 800 180 100, demo_enemy 800 180 100]))) = 166
   \<and> damageCooldown (player (update {} half
        (demo_state None 200 [demo_enemy 800 180 100, demo_enemy 800 180 100]))) = Some 60"
proof -
  let ?s = "demo_state None 200 [demo_enemy 800 180 100, demo_enemy 800 180 100]"
  have st: "status ?s = PLAYING" by (simp add: demo_state_def)
  have cd: "cooldown_clear (damageCooldown (moved_player {} ?s))"
    by (simp add: moved_player_damage cooldown_clear_def demo_state_def)
  have ps: "pos (moved_player {} ?s) = \<lparr>vx = 800, vy = 160\<rparr>"
    by (simp only: moved_player_idle_pos demo_player_pos)
  have en: "enemies ?s = [demo_enemy 800 180 100, demo_enemy 800 180 100]"
    by (simp add: demo_state_def)
  have ct: "list_all (in_contact (pos (moved_player {} ?s))) (enemies ?s)"
    by (simp add: ps en demo_contact)
  then have ex: "\<exists>e\<in>set (enemies ?s). in_contact (pos (moved_player {} ?s)) e"
    by (simp add: en)
  have h: "health (player ?s) = 200" by (simp add: demo_state_def)
  from contact_damage_once_per_tick [of "{}" half ?s] st cd ex h
  have "health (player (update {} half ?s)) = 166
      \<and> damageCooldown (player (update {} half ?s)) = Some 60"
    by (simp add: ENEMY_DAMAGE_def DAMAGE_COOLDOWN_def)
  with st cd ct show ?thesis by simp
qed

text \<open>
  C5. Let the player's damage cooldown be 60 (the state a contact hit leaves) with the
  game still being played. Then any run of at most 59 further ticks, whatever the keys,
  the draws and the hostiles in contact, leaves the health unchanged and the cooldown at
  60 minus the number of ticks; and after exactly 59 ticks, a 60th tick with a hostile in
  contact takes 34 health again and resets the cooldown to 60.
\<close>

theorem contact_damage_cooldown:
  assumes "status s = PLAYING" and "damageCooldown (player s) = Some DAMAGE_COOLDOWN"
    and "0 < health (player s)"
  shows "(\<forall>ins. length ins \<le> 59 \<longrightarrow>
            health (player (ticks ins s)) = health (player s)
          \<and> damageCooldown (player (ticks ins s)) = Some (60 - int (length ins))
          \<and> status (ticks ins s) = PLAYING)
       \<and> (\<forall>ins keys rnd. length ins = 59
            \<and> (\<exists>e\<in>set (enemies (ticks ins s)). in_contact (pos (moved_player keys (ticks ins s))) e) \<longrightarrow>
            health (player (update keys rnd (ticks ins s))) = health (player s) - ENEMY_DAMAGE
          \<and> damageCooldown (player (update keys rnd (ticks ins s))) = Some DAMAGE_COOLDOWN)"
proof -
  have c: "damageCooldown (player s) = Some 60"
    using assms(2) by (simp add: DAMAGE_COOLDOWN_def)
  have quiet: "health (player (ticks ins s)) = health (player s)
          \<and> damageCooldown (player (ticks ins s)) = Some (60 - int (length ins))
          \<and> status (ticks ins s) = PLAYING" if "length ins \<le> 59" for ins
    using that by (intro ticks_cooling [OF assms(1) c _ assms(3)]) simp
  have rearm: "health (player (update keys rnd (ticks ins s))) = health (player s) - ENEMY_DAMAGE
          \<and> damageCooldown (player (update keys rnd (ticks ins s))) = Some DAMAGE_COOLDOWN"
    if l: "length ins = 59"
      and ct: "\<exists>e\<in>set (enemies (ticks ins s)). in_contact (pos (moved_player keys (ticks ins s))) e"
    for ins keys rnd
  proof -
    have q: "health (player (ticks ins s)) = health (player s)
          \<and> damageCooldown (player (ticks ins s)) = Some 1 \<and> status (ticks ins s) = PLAYING"
      using quiet [of ins] l by simp
    show ?thesis
      using tick_rearm [of "ticks ins s" keys rnd] q ct by simp
  qed
  show ?thesis using quiet rearm by blast
qed

theorem contact_damage_cooldown_witness:
  "status (cooling_state 60) = PLAYING
   \<and> damageCooldown (player (cooling_state 60)) = Some DAMAGE_COOLDOWN
   \<and> health (player (cooling_state 60)) = 166
   \<and> length (replicate 59 ({} :: string set, half)) = 59
   \<and> list_ex (in_contact (pos (moved_player {} (ticks (replicate 59 ({}, half)) (cooling_state 60)))))
        (enemies (ticks (replicate 59 ({}, half)) (cooling_state 60)))
   \<and> health (player (ticks (replicate 59 ({}, half)) (cooling_state 60))) = 166
   \<and> damageCooldown (player (ticks (replicate 59 ({}, half)) (cooling_state 60))) = Some 1
   \<and> health (player (update {} half (ticks (replicate 59 ({}, half)) (cooling_state 60)))) = 132
   \<and> damageCooldown (player (update {} half (ticks (replicate 59 ({}, half)) (cooling_state 60)))) = Some 60"
proof -
  let ?s = "cooling_state 60"
  let ?ins = "replicate 59 ({} :: string set, half)"
  have st: "status ?s = PLAYING" by (simp add: cooling_state_def demo_state_def)
  have cd: "damageCooldown (player ?s) = Some DAMAGE_COOLDOWN"
    by (simp add: cooling_state_def demo_state_def DAMAGE_COOLDOWN_def)
  have h: "health (player ?s) = 166" by (simp add: cooling_state_def demo_state_def)
  then have hp: "0 < health (player ?s)" by simp
  have t: "ticks ?ins ?s = cooling_state 1"
    using cooling_ticks [of 59 60 half] by simp
  have ct: "list_ex (in_contact (pos (moved_player {} (ticks ?ins ?s)))) (enemies (ticks ?ins ?s))"
    unfolding t
    by (simp add: moved_player_idle_pos)
       (simp add: cooling_state_def demo_state_def init_player_def GRID_WIDTH_def TILE_SIZE_def
          stuck_enemy_def in_contact_def demo_enemy_def hypot_less_iff)
  then have ex: "\<exists>e\<in>set (enemies (ticks ?ins ?s)). in_contact (pos (moved_player {} (ticks ?ins ?s))) e"
    by (simp add: list_ex_iff)
  note main = contact_damage_cooldown [OF st cd hp]
  have a: "health (player (ticks ?ins ?s)) = 166 \<and> damageCooldown (player (ticks ?ins ?s)) = Some 1"
    using main [THEN conjunct1, rule_format, of ?ins] h by simp
  have b: "health (player (update {} half (ticks ?ins ?s))) = 132
         \<and> damageCooldown (player (update {} half (ticks ?ins ?s))) = Some 60"
    using main [THEN conjunct2, rule_format, of ?ins "{}" half] ex h
    by (simp add: ENEMY_DAMAGE_def DAMAGE_COOLDOWN_def)
  show ?thesis using st cd h ct a b by simp
qed

subsection \<open>Pointer attack\<close>

text \<open>
  C8 (fails on the code). The claim: a press that damages a hostile changes no tile
  durability, spawns no mining particle and changes no resource counter. The handler
  tests \<open>hitAnyEnemy\<close> right after queuing the attack update, which is the only place
  that sets the flag, so the test reads \<open>false\<close> and the mining update is queued as well.
  A press that kills the two hostiles under the pointer also mines the GRASS tile under
  it (durability 5 to \<open>-3\<close>, type AIR), sets the screen shake to 5 and adds mining
  particles; a press that hits a hostile standing on the last missing shard raises the
  shard counter from 9 to 10 and wins the game.
\<close>

theorem hit_press_also_mines:
  "status pair_state = PLAYING
   \<and> list_ex (in_click (400 + vx (camera pair_state)) (320 + vy (camera pair_state))) (enemies pair_state)
   \<and> enemies (handleCanvasClick 400 320 half pair_state) = []
   \<and> tile_at (grid pair_state) 5 20 = \<lparr>ttype = GRASS, durability = 5, maxDurability = 5\<rparr>
   \<and> tile_at (grid (handleCanvasClick 400 320 half pair_state)) 5 20
        = \<lparr>ttype = AIR, durability = - 3, maxDurability = 5\<rparr>
   \<and> screenShake pair_state = 0
   \<and> screenShake (handleCanvasClick 400 320 half pair_state) = 5
   \<and> list_ex (\<lambda>q. life q = 30 \<and> color q = COLORS GRASS) (particles (handleCanvasClick 400 320 half pair_state))
   \<and> status shard_hit_state = PLAYING
   \<and> list_ex (in_click (400 + vx (camera shard_hit_state)) (340 + vy (camera shard_hit_state)))
        (enemies shard_hit_state)
   \<and> shardsCollected shard_hit_state = 9
   \<and> shardsCollected (handleCanvasClick 400 340 half shard_hit_state) = 10
   \<and> status (handleCanvasClick 400 340 half shard_hit_state) = WON"
proof -
  let ?r = "click_attack 820 200 half pair_state"
  have st: "status pair_state = PLAYING" by (simp add: pair_state_def demo_fields)
  have hit: "list_ex (in_click (400 + vx (camera pair_state)) (320 + vy (camera pair_state)))
               (enemies pair_state)"
    by (simp add: pair_state_def demo_fields demo_in_click)
  have e: "enemies (handleCanvasClick 400 320 half pair_state) = []"
    by (simp add: click_enemies_eq [OF st])
       (simp add: pair_state_def demo_fields click_damage_def demo_in_click demo_enemy_health
          CLICK_DAMAGE_def)
  have g: "grid (fst ?r) = fill_grid"
    using click_attack_frame [of 820 200 half pair_state] by (simp add: pair_state_def demo_fields)
  have t0: "tile_at fill_grid 5 20 = \<lparr>ttype = GRASS, durability = 5, maxDurability = 5\<rparr>"
    by (simp add: fill_tile new_tile_def fill_type_def)
  note m = mine_out [of "fst ?r" 5 20 half "fst (snd ?r)", unfolded g t0]
  have t1: "tile_at (grid (handleCanvasClick 400 320 half pair_state)) 5 20
        = \<lparr>ttype = AIR, durability = - 3, maxDurability = 5\<rparr>"
    using m by (simp add: pair_click_mines fill_set_get)
  have sh: "screenShake (handleCanvasClick 400 320 half pair_state) = 5"
    using m by (simp add: pair_click_mines)
  obtain labels where "particles (handleCanvasClick 400 320 half pair_state) =
      particles (fst ?r) @ spawnMiningParticles 20 5 (COLORS GRASS) half (fst (snd ?r)) @ labels"
    using m by (auto simp add: pair_click_mines)
  then have pa: "list_ex (\<lambda>q. life q = 30 \<and> color q = COLORS GRASS)
      (particles (handleCanvasClick 400 320 half pair_state))"
    by (simp add: mining_particle_ex)
  have st2: "status shard_hit_state = PLAYING \<and> shardsCollected shard_hit_state = 9"
    by (simp add: shard_hit_state_def shard_state_def demo_fields)
  have hit2: "list_ex (in_click (400 + vx (camera shard_hit_state)) (340 + vy (camera shard_hit_state)))
        (enemies shard_hit_state)"
    by (simp add: shard_hit_state_def shard_state_def demo_fields in_click_def demo_enemy_def
        hypot_less_iff TILE_SIZE_def)
  show ?thesis
    using st hit e t0 t1 sh pa st2 hit2 shard_hit_click by (simp add: pair_state_def demo_fields)
qed

text \<open>
  C6 (as stated, fails). The claim: each hostile killed by a press restores a fixed amount of
  health. The code restores 20 once per press when the press removed at least one
  hostile: a press that kills two hostiles takes the player from 100 to 120, not 140.
\<close>

theorem two_kills_one_heal:
  "length (enemies pair_state) = 2
   \<and> list_all (\<lambda>e. in_click (400 + vx (camera pair_state)) (320 + vy (camera pair_state)) e
                  \<and> 0 < health e \<and> health e \<le> CLICK_DAMAGE) (enemies pair_state)
   \<and> status pair_state = PLAYING
   \<and> enemies (handleCanvasClick 400 320 half pair_state) = []
   \<and> health (player pair_state) = 100
   \<and> health (player (handleCanvasClick 400 320 half pair_state)) = 120
   \<and> health (player (handleCanvasClick 400 320 half pair_state)) \<noteq> health (player pair_state) + 2 * 20"
proof -
  have st: "status pair_state = PLAYING" by (simp add: pair_state_def demo_fields)
  have a: "list_all (\<lambda>e. in_click (400 + vx (camera pair_state)) (320 + vy (camera pair_state)) e
                  \<and> 0 < health e \<and> health e \<le> CLICK_DAMAGE) (enemies pair_state)"
    by (simp add: pair_state_def demo_fields demo_in_click demo_enemy_health CLICK_DAMAGE_def)
  have e: "enemies (handleCanvasClick 400 320 half pair_state) = []"
    by (simp add: click_enemies_eq [OF st])
       (simp add: pair_state_def demo_fields click_damage_def demo_in_click demo_enemy_health
          CLICK_DAMAGE_def)
  have k: "some_killed (400 + vx (camera pair_state)) (320 + vy (camera pair_state)) (enemies pair_state)"
    by (simp add: some_killed_def pair_state_def demo_fields click_damage_def demo_in_click
        demo_enemy_health CLICK_DAMAGE_def)
  have h: "health (player (handleCanvasClick 400 320 half pair_state)) = 120"
    by (simp add: click_player_health [OF st] k)
       (simp add: pair_state_def demo_fields INITIAL_PLAYER_HEALTH_def)
  show ?thesis using st a e h by (simp add: pair_state_def demo_fields)
qed

text \<open>
  C6 (amended). While the game is being played and every listed hostile is alive, a
  pointer press that kills at least one hostile restores 20 health once, capped at
  \<open>INITIAL_PLAYER_HEALTH\<close> = 200, however many hostiles it kills; a press that kills none
  leaves the health as it is; the melee attack never changes the player's health.
\<close>

theorem click_kill_heals_once:
  assumes "status s = PLAYING" and "list_all (\<lambda>e. health e > 0) (enemies s)"
  shows "health (player (handleCanvasClick cx cy rnd s)) =
           (if \<exists>e\<in>set (enemies s).
                 in_click (cx + vx (camera s)) (cy + vy (camera s)) e \<and> health e \<le> CLICK_DAMAGE
            then min INITIAL_PLAYER_HEALTH (health (player s) + 20)
            else health (player s))
       \<and> health (player (handleAttack rnd' s)) = health (player s)"
  using click_player_health [OF assms(1), of cx cy rnd] some_killed_iff [OF assms(2)] attack_frame [of rnd' s]
  by simp

theorem click_kill_heals_once_witness:
  "status capped_state = PLAYING
   \<and> list_all (\<lambda>e. health e > 0) (enemies capped_state)
   \<and> list_ex (\<lambda>e. in_click (400 + vx (camera capped_state)) (320 + vy (camera capped_state)) e
                 \<and> health e \<le> CLICK_DAMAGE) (enemies capped_state)
   \<and> health (player capped_state) = 190
   \<and> health (player (handleCanvasClick 400 320 half capped_state)) = 200
   \<and> enemies (handleAttack half capped_state) = []
   \<and> health (player (handleAttack half capped_state)) = 190"
proof -
  have st: "status capped_state = PLAYING" by (simp add: capped_state_def demo_fields)
  have al: "list_all (\<lambda>e. health e > 0) (enemies capped_state)"
    by (simp add: capped_state_def demo_fields demo_enemy_health)
  have k: "list_ex (\<lambda>e. in_click (400 + vx (camera capped_state)) (320 + vy (camera capped_state)) e
                 \<and> health e \<le> CLICK_DAMAGE) (enemies capped_state)"
    by (simp add: capped_state_def demo_fields demo_in_click demo_enemy_health CLICK_DAMAGE_def)
  then have kx: "\<exists>e\<in>set (enemies capped_state).
       in_click (400 + vx (camera capped_state)) (320 + vy (camera capped_state)) e
       \<and> health e \<le> CLICK_DAMAGE"
    by (simp add: list_ex_iff)
  have h: "health (player capped_state) = 190" by (simp add: capped_state_def demo_fields)
  have m: "enemies (handleAttack half capped_state) = []"
    using attack_enemies_eq [of capped_state half]
    by (simp add: capped_state_def demo_fields demo_player_pos sword_damage_def demo_in_reach
        demo_enemy_health SWORD_DAMAGE_def)
  from click_kill_heals_once [OF st al, of 400 320 half half] kx h
  have "health (player (handleCanvasClick 400 320 half capped_state)) = 200
      \<and> health (player (handleAttack half capped_state)) = 190"
    by (simp add: INITIAL_PLAYER_HEALTH_def)
  with st al k h m show ?thesis by simp
qed

subsection \<open>Winning\<close>



subsection \<open>Collision\<close>

text \<open>
  C4. The collision query is true exactly when some covered tile index is solid (outside
  the grid, or not AIR). In a tick, for the player and for every hostile: if the
  horizontal coordinate changed, the query was false at the new horizontal coordinate
  with the old vertical one (the test of that axis); if the vertical coordinate changed,
  the query is false at the resulting position; so a body whose position changed never
  ends in a position for which the query is true. Positions are reals here, so the
  rounding of floating-point arithmetic is not covered.
\<close>

theorem collision_query_and_movement:
  "(checkCollision g px py \<longleftrightarrow> (\<exists>tx ty. covered px py tx ty \<and> tile_solid g tx ty))
   \<and> (status s = PLAYING \<longrightarrow>
        (vx (pos (player (update keys rnd s))) \<noteq> vx (pos (player s)) \<longrightarrow>
           \<not> checkCollision (grid s) (vx (pos (player (update keys rnd s)))) (vy (pos (player s))))
      \<and> (vy (pos (player (update keys rnd s))) \<noteq> vy (pos (player s)) \<longrightarrow>
           \<not> collides (grid s) (pos (player (update keys rnd s))))
      \<and> (pos (player (update keys rnd s)) \<noteq> pos (player s) \<longrightarrow>
           \<not> collides (grid s) (pos (player (update keys rnd s))))
      \<and> length (enemies (update keys rnd s)) = length (enemies s)
      \<and> (\<forall>i<length (enemies s).
            (vx (pos (enemies (update keys rnd s) ! i)) \<noteq> vx (pos (enemies s ! i)) \<longrightarrow>
               \<not> checkCollision (grid s) (vx (pos (enemies (update keys rnd s) ! i))) (vy (pos (enemies s ! i))))
          \<and> (vy (pos (enemies (update keys rnd s) ! i)) \<noteq> vy (pos (enemies s ! i)) \<longrightarrow>
               \<not> collides (grid s) (pos (enemies (update keys rnd s) ! i)))
          \<and> (pos (enemies (update keys rnd s) ! i) \<noteq> pos (enemies s ! i) \<longrightarrow>
               \<not> collides (grid s) (pos (enemies (update keys rnd s) ! i)))))"
proof -
  have player_part:
    "(vx (pos (player (update keys rnd s))) \<noteq> vx (pos (player s)) \<longrightarrow>
           \<not> checkCollision (grid s) (vx (pos (player (update keys rnd s)))) (vy (pos (player s))))
      \<and> (vy (pos (player (update keys rnd s))) \<noteq> vy (pos (player s)) \<longrightarrow>
           \<not> collides (grid s) (pos (player (update keys rnd s))))
      \<and> (pos (player (update keys rnd s)) \<noteq> pos (player s) \<longrightarrow>
           \<not> collides (grid s) (pos (player (update keys rnd s))))"
    if st: "status s = PLAYING"
    by (simp only: update_player_pos [OF st]) (rule move_player_axes)
  have enemy_part:
    "(vx (pos (enemies (update keys rnd s) ! i)) \<noteq> vx (pos (enemies s ! i)) \<longrightarrow>
               \<not> checkCollision (grid s) (vx (pos (enemies (update keys rnd s) ! i))) (vy (pos (enemies s ! i))))
          \<and> (vy (pos (enemies (update keys rnd s) ! i)) \<noteq> vy (pos (enemies s ! i)) \<longrightarrow>
               \<not> collides (grid s) (pos (enemies (update keys rnd s) ! i)))
          \<and> (pos (enemies (update keys rnd s) ! i) \<noteq> pos (enemies s ! i) \<longrightarrow>
               \<not> collides (grid s) (pos (enemies (update keys rnd s) ! i)))"
    if st: "status s = PLAYING" and i: "i < length (enemies s)" for i
  proof -
    obtain pp d where "enemies (update keys rnd s) ! i = steer (grid s) pp d (enemies s ! i)"
      using i by (simp add: update_enemies_eq [OF st])
    then show ?thesis by (simp only:) (rule steer_axes)
  qed
  have len: "length (enemies (update keys rnd s)) = length (enemies s)" if st: "status s = PLAYING"
    by (simp add: update_enemies_eq [OF st])
  show ?thesis
    using checkCollision_iff [of g px py] player_part enemy_part len by blast
qed

theorem collision_query_and_movement_witness:
  "checkCollision fill_grid 800 180 \<and> covered 800 180 20 5 \<and> tile_solid fill_grid 20 5
   \<and> status chase_state = PLAYING
   \<and> pos (player chase_state) = \<lparr>vx = 800, vy = 160\<rparr>
   \<and> pos (player (update {''KeyD''} half chase_state)) = \<lparr>vx = 805, vy = 160\<rparr>
   \<and> \<not> collides (grid chase_state) \<lparr>vx = 805, vy = 160\<rparr>
   \<and> length (enemies chase_state) = 1
   \<and> pos (enemies chase_state ! 0) = \<lparr>vx = 805, vy = 100\<rparr>
   \<and> pos (enemies (update {''KeyD''} half chase_state) ! 0) = \<lparr>vx = 805, vy = 203 / 2\<rparr>
   \<and> \<not> collides (grid chase_state) \<lparr>vx = 805, vy = 203 / 2\<rparr>"
proof -
  note main = collision_query_and_movement [of fill_grid 800 180 chase_state "{''KeyD''}" half]
  have c: "covered 800 180 20 5" by (simp add: covered_def TILE_SIZE_def)
  have t: "tile_solid fill_grid 20 5"
    by (simp add: tile_solid_def GRID_WIDTH_def GRID_HEIGHT_def fill_tile new_tile_def fill_type_def)
  have cc: "checkCollision fill_grid 800 180"
    using main [THEN conjunct1] c t by blast
  have st: "status chase_state = PLAYING" by (simp add: chase_state_def demo_state_def)
  have p0: "pos (player chase_state) = \<lparr>vx = 800, vy = 160\<rparr>"
    by (simp add: chase_state_def demo_player_pos)
  have p1: "pos (player (update {''KeyD''} half chase_state)) = \<lparr>vx = 805, vy = 160\<rparr>"
    by (rule chase_player_step)
  have e0: "enemies chase_state = [demo_enemy 805 100 100]"
    by (simp add: chase_state_def demo_state_def)
  have q0: "pos (enemies chase_state ! 0) = \<lparr>vx = 805, vy = 100\<rparr>"
    by (simp add: e0 demo_enemy_def)
  have q1: "pos (enemies (update {''KeyD''} half chase_state) ! 0) = \<lparr>vx = 805, vy = 203 / 2\<rparr>"
    by (simp add: chase_enemy_step)
  have f1: "\<not> collides (grid chase_state) \<lparr>vx = 805, vy = 160\<rparr>"
    using main [THEN conjunct2, rule_format, OF st, THEN conjunct2, THEN conjunct2, THEN conjunct1]
    by (simp add: p0 p1)
  have f2: "\<not> collides (grid chase_state) \<lparr>vx = 805, vy = 203 / 2\<rparr>"
    using main [THEN conjunct2, rule_format, OF st, THEN conjunct2, THEN conjunct2, THEN conjunct2,
        THEN conjunct2, rule_format, of 0, THEN conjunct2, THEN conjunct2]
    by (simp add: e0 q0 [unfolded e0] q1 demo_enemy_pos)
  show ?thesis using cc c t st p0 p1 f1 q0 q1 f2 by (simp add: e0)
qed

subsection \<open>Entity health\<close>




subsection \<open>World generation\<close>

text \<open>
  C7. The layered fill puts AIR in rows 0..4, GRASS in row 5, DIRT in rows 6..9 and STONE
  in rows 10 and below. For a draw in [0, 1) the walk length is between 20 and 59 (so
  within 20 to 60) and the disc radius is 2 or 3. One disc turns into AIR exactly the tiles
  of rows 10 and below whose Euclidean distance from the centre is at most the radius.

  A walk with loop bound \<open>n\<close> carves exactly the discs of \<open>walk_discs\<close>, three draws each: at
  most \<open>n\<close> of them, the first at the start position, the \<open>j\<close>-th with the radius drawn at
  step \<open>j\<close>, and fewer than \<open>n\<close> only when the drift from the last disc leaves the carving
  region. So a walk of at least one step turns every tile of rows 10 and below within the
  first radius of its start into AIR, a tile it changes lies in rows 10 and below within
  \<open>2n + 1\<close> columns and \<open>n + 2\<close> rows of the start, and the tile it leaves at a position is AIR
  when the position is in rows 10 and below and inside one of its discs, and the old tile
  otherwise.

  The cave loop carves exactly the discs of its \<open>w\<close> walks, each walk started at the drawn
  position with the drawn length as its loop bound. With draws in [0, 1) every walk has
  between 1 and 59 discs, all of radius 2 or 3 and centred in the carving region, and the
  loop uses between \<open>6w\<close> and \<open>180w\<close> draws. Rows 0..9 are as before and every tile that changed
  is an AIR tile.

  Whenever generation returns (draws in [0, 1)), the grid has the 60 by 40 shape, rows 0..9
  are those of the layered fill, a tile is AIR exactly in rows 0..4 and, in rows 10 and
  below, inside a disc of one of the 15 walks, every tile is the one the cave loop left or an
  ore tile put in rows 12 and below over STONE, and there are 15 SHARD, 5 GOLD and 3 DIAMOND
  tiles.
\<close>

theorem world_layers_and_caves:
  "(in_grid y x \<longrightarrow>
      tile_at fill_grid y x =
        new_tile (if y \<le> 4 then AIR else if y = 5 then GRASS else if y \<le> 9 then DIRT else STONE))
   \<and> (0 \<le> r \<and> r < 1 \<longrightarrow>
        20 \<le> walk_length r \<and> walk_length r \<le> 59 \<and> (disc_radius r = 2 \<or> disc_radius r = 3))
   \<and> (\<exists>m. m \<le> n \<and> snd (worm n cx cy rnd k g) = k + 3 * m)
   \<and> (wf_grid g \<and> in_grid y x \<longrightarrow>
        tile_at (carve_disc cx cy radius g) y x =
          (if 10 \<le> y \<and> hypot (real_of_int (x - cx)) (real_of_int (y - cy)) \<le> real_of_int radius
           then air_tile else tile_at g y x))
   \<and> (wf_grid g \<and> in_grid y x \<longrightarrow>
        (y < 10 \<longrightarrow> tile_at (fst (caves w rnd k g)) y x = tile_at g y x)
        \<and> (tile_at (fst (caves w rnd k g)) y x = tile_at g y x
            \<or> tile_at (fst (caves w rnd k g)) y x = air_tile))
   \<and> (unit_draws rnd \<and> generate_grid fuel rnd = Some (g', k') \<and> in_grid y x \<and> y < 10 \<longrightarrow>
        tile_at g' y x = tile_at fill_grid y x)
   \<and> worm n cx cy rnd k g =
        (carve_all (walk_discs n cx cy rnd k) g, k + 3 * length (walk_discs n cx cy rnd k))
   \<and> length (walk_discs n cx cy rnd k) \<le> n
   \<and> (j < length (walk_discs n cx cy rnd k) \<longrightarrow>
        snd (snd (walk_discs n cx cy rnd k ! j)) = disc_radius (rnd (k + 3 * j)))
   \<and> (0 < n \<longrightarrow> walk_discs n cx cy rnd k \<noteq> []
        \<and> hd (walk_discs n cx cy rnd k) = (cx, cy, disc_radius (rnd k)))
   \<and> (length (walk_discs n cx cy rnd k) < n \<longrightarrow>
        (case last (walk_discs n cx cy rnd k) of
           (px, py, pr) \<Rightarrow>
             \<not> in_region (px + (\<lfloor>rnd (k + 3 * length (walk_discs n cx cy rnd k) - 2) * 5\<rfloor> - 2))
                          (py + (\<lfloor>rnd (k + 3 * length (walk_discs n cx cy rnd k) - 1) * 3\<rfloor> - 1))))
   \<and> (0 < n \<and> wf_grid g \<and> in_grid y x \<and> 10 \<le> y
        \<and> hypot (real_of_int (x - cx)) (real_of_int (y - cy)) \<le> real_of_int (disc_radius (rnd k)) \<longrightarrow>
        tile_at (fst (worm n cx cy rnd k g)) y x = air_tile)
   \<and> (unit_draws rnd \<and> wf_grid g \<and> in_grid y x
        \<and> tile_at (fst (worm n cx cy rnd k g)) y x \<noteq> tile_at g y x \<longrightarrow>
        10 \<le> y \<and> \<bar>x - cx\<bar> \<le> 2 * int n + 1 \<and> \<bar>y - cy\<bar> \<le> int n + 2)
   \<and> (wf_grid g \<and> in_grid y x \<longrightarrow>
        tile_at (fst (worm n cx cy rnd k g)) y x =
          (if 10 \<le> y \<and> list_ex (in_disc y x) (walk_discs n cx cy rnd k) then air_tile
           else tile_at g y x))
   \<and> caves w rnd k g =
        (carve_all (concat (cave_walks w rnd k)) g,
         k + 3 * w + 3 * length (concat (cave_walks w rnd k)))
   \<and> (wf_grid g \<and> in_grid y x \<longrightarrow>
        tile_at (fst (caves w rnd k g)) y x =
          (if 10 \<le> y \<and> list_ex (in_disc y x) (concat (cave_walks w rnd k)) then air_tile
           else tile_at g y x))
   \<and> length (cave_walks w rnd k) = w
   \<and> (i < w \<longrightarrow>
        (let ds = cave_walks w rnd k ! i;
             s = k + 3 * i + 3 * length (concat (take i (cave_walks w rnd k)))
         in ds = walk_discs (nat (walk_length (rnd (s + 2)))) \<lfloor>rnd s * real_of_int GRID_WIDTH\<rfloor>
                   (\<lfloor>rnd (s + 1) * real_of_int (GRID_HEIGHT - 15)\<rfloor> + 15) rnd (s + 3)))
   \<and> (unit_draws rnd \<longrightarrow>
        list_all (\<lambda>ds. ds \<noteq> [] \<and> length ds \<le> 59 \<and> list_all walk_disc_ok ds) (cave_walks w rnd k)
        \<and> k + 6 * w \<le> snd (caves w rnd k g) \<and> snd (caves w rnd k g) \<le> k + 180 * w)
   \<and> (unit_draws rnd \<and> generate_grid fuel rnd = Some (g', k') \<longrightarrow>
        wf_grid g' \<and> card (ore_cells SHARD g') = 15 \<and> card (ore_cells GOLD g') = 5
        \<and> card (ore_cells DIAMOND g') = 3)
   \<and> (unit_draws rnd \<and> generate_grid fuel rnd = Some (g', k') \<and> in_grid y x \<longrightarrow>
        (ttype (tile_at g' y x) = AIR \<longleftrightarrow>
           y \<le> 4 \<or> (10 \<le> y \<and> list_ex (in_disc y x) (concat (cave_walks 15 rnd 0))))
        \<and> (tile_at g' y x = tile_at (fst (caves 15 rnd 0 fill_grid)) y x
            \<or> (12 \<le> y \<and> ttype (tile_at (fst (caves 15 rnd 0 fill_grid)) y x) = STONE
                \<and> (tile_at g' y x = new_tile SHARD \<or> tile_at g' y x = new_tile GOLD
                    \<or> tile_at g' y x = new_tile DIAMOND))))"
proof -
  have c1: "in_grid y x \<longrightarrow>
      tile_at fill_grid y x =
        new_tile (if y \<le> 4 then AIR else if y = 5 then GRASS else if y \<le> 9 then DIRT else STONE)"
    using fill_layers [of y x] by blast
  have c2: "0 \<le> r \<and> r < 1 \<longrightarrow>
        20 \<le> walk_length r \<and> walk_length r \<le> 59 \<and> (disc_radius r = 2 \<or> disc_radius r = 3)"
    using walk_length_bounds [of r] disc_radius_cases [of r] by blast
  have c3: "\<exists>m. m \<le> n \<and> snd (worm n cx cy rnd k g) = k + 3 * m"
    using worm_steps [of n cx cy rnd k g] by blast
  have c4: "wf_grid g \<and> in_grid y x \<longrightarrow>
        tile_at (carve_disc cx cy radius g) y x =
          (if 10 \<le> y \<and> hypot (real_of_int (x - cx)) (real_of_int (y - cy)) \<le> real_of_int radius
           then air_tile else tile_at g y x)"
    using carve_disc_tile [of g y x cx cy radius] by blast
  have c5: "wf_grid g \<and> in_grid y x \<longrightarrow>
        (y < 10 \<longrightarrow> tile_at (fst (caves w rnd k g)) y x = tile_at g y x)
        \<and> (tile_at (fst (caves w rnd k g)) y x = tile_at g y x
            \<or> tile_at (fst (caves w rnd k g)) y x = air_tile)"
    using only_carved_caves [of g w rnd k] unfolding only_carved_def by blast
  have c6: "unit_draws rnd \<and> generate_grid fuel rnd = Some (g', k') \<and> in_grid y x \<and> y < 10 \<longrightarrow>
        tile_at g' y x = tile_at fill_grid y x"
    using generate_grid_rows [of rnd fuel g' k' y x] by blast
  have c7: "worm n cx cy rnd k g =
        (carve_all (walk_discs n cx cy rnd k) g, k + 3 * length (walk_discs n cx cy rnd k))"
    by (rule worm_discs)
  have c8: "length (walk_discs n cx cy rnd k) \<le> n"
    by (rule walk_discs_length)
  have c9: "j < length (walk_discs n cx cy rnd k) \<longrightarrow>
        snd (snd (walk_discs n cx cy rnd k ! j)) = disc_radius (rnd (k + 3 * j))"
    using walk_discs_radius [of j n cx cy rnd k] by blast
  have c10: "0 < n \<longrightarrow> walk_discs n cx cy rnd k \<noteq> []
        \<and> hd (walk_discs n cx cy rnd k) = (cx, cy, disc_radius (rnd k))"
    by (cases n) simp_all
  have c11: "length (walk_discs n cx cy rnd k) < n \<longrightarrow>
        (case last (walk_discs n cx cy rnd k) of
           (px, py, pr) \<Rightarrow>
             \<not> in_region (px + (\<lfloor>rnd (k + 3 * length (walk_discs n cx cy rnd k) - 2) * 5\<rfloor> - 2))
                          (py + (\<lfloor>rnd (k + 3 * length (walk_discs n cx cy rnd k) - 1) * 3\<rfloor> - 1)))"
    using walk_discs_stop [of n cx cy rnd k] by blast
  have c12: "0 < n \<and> wf_grid g \<and> in_grid y x \<and> 10 \<le> y
        \<and> hypot (real_of_int (x - cx)) (real_of_int (y - cy)) \<le> real_of_int (disc_radius (rnd k)) \<longrightarrow>
        tile_at (fst (worm n cx cy rnd k g)) y x = air_tile"
    using worm_carves_first [of n g y x cx cy rnd k] by blast
  have c13: "unit_draws rnd \<and> wf_grid g \<and> in_grid y x
        \<and> tile_at (fst (worm n cx cy rnd k g)) y x \<noteq> tile_at g y x \<longrightarrow>
        10 \<le> y \<and> \<bar>x - cx\<bar> \<le> 2 * int n + 1 \<and> \<bar>y - cy\<bar> \<le> int n + 2"
    using worm_local [of rnd g y x n cx cy k] by blast
  have c14: "wf_grid g \<and> in_grid y x \<longrightarrow>
        tile_at (fst (worm n cx cy rnd k g)) y x =
          (if 10 \<le> y \<and> list_ex (in_disc y x) (walk_discs n cx cy rnd k) then air_tile
           else tile_at g y x)"
    using worm_tile [of g y x n cx cy rnd k] by blast
  have c15: "caves w rnd k g =
        (carve_all (concat (cave_walks w rnd k)) g,
         k + 3 * w + 3 * length (concat (cave_walks w rnd k)))"
    by (rule caves_walks)
  have c16: "wf_grid g \<and> in_grid y x \<longrightarrow>
        tile_at (fst (caves w rnd k g)) y x =
          (if 10 \<le> y \<and> list_ex (in_disc y x) (concat (cave_walks w rnd k)) then air_tile
           else tile_at g y x)"
    using caves_tile [of g y x w rnd k] by blast
  have c17: "length (cave_walks w rnd k) = w"
    by (rule cave_walks_length)
  have c18: "i < w \<longrightarrow>
        (let ds = cave_walks w rnd k ! i;
             s = k + 3 * i + 3 * length (concat (take i (cave_walks w rnd k)))
         in ds = walk_discs (nat (walk_length (rnd (s + 2)))) \<lfloor>rnd s * real_of_int GRID_WIDTH\<rfloor>
                   (\<lfloor>rnd (s + 1) * real_of_int (GRID_HEIGHT - 15)\<rfloor> + 15) rnd (s + 3))"
    using cave_walks_nth [of i w rnd k] by blast
  have c19: "unit_draws rnd \<longrightarrow>
        list_all (\<lambda>ds. ds \<noteq> [] \<and> length ds \<le> 59 \<and> list_all walk_disc_ok ds) (cave_walks w rnd k)
        \<and> k + 6 * w \<le> snd (caves w rnd k g) \<and> snd (caves w rnd k g) \<le> k + 180 * w"
    using cave_walks_ok [of rnd w k] caves_draws [of rnd k w g] by blast
  have c20: "unit_draws rnd \<and> generate_grid fuel rnd = Some (g', k') \<longrightarrow>
        wf_grid g' \<and> card (ore_cells SHARD g') = 15 \<and> card (ore_cells GOLD g') = 5
        \<and> card (ore_cells DIAMOND g') = 3"
    using generate_grid_world [of rnd fuel g' k'] by blast
  have c21: "unit_draws rnd \<and> generate_grid fuel rnd = Some (g', k') \<and> in_grid y x \<longrightarrow>
        (ttype (tile_at g' y x) = AIR \<longleftrightarrow>
           y \<le> 4 \<or> (10 \<le> y \<and> list_ex (in_disc y x) (concat (cave_walks 15 rnd 0))))
        \<and> (tile_at g' y x = tile_at (fst (caves 15 rnd 0 fill_grid)) y x
            \<or> (12 \<le> y \<and> ttype (tile_at (fst (caves 15 rnd 0 fill_grid)) y x) = STONE
                \<and> (tile_at g' y x = new_tile SHARD \<or> tile_at g' y x = new_tile GOLD
                    \<or> tile_at g' y x = new_tile DIAMOND)))"
    using generate_grid_world [of rnd fuel g' k'] generate_grid_air [of rnd fuel g' k' y x] by blast
  show ?thesis
    by (intro conjI; (rule c1 c2 c3 c4 c5 c6 c7 c8 c9 c10 c11 c12 c13 c14 c15 c16 c17 c18 c19 c20 c21))
qed

theorem world_layers_and_caves_witness:
  "in_grid 7 3 \<and> in_grid 38 21 \<and> in_grid 15 0
   \<and> tile_at fill_grid 7 3 = \<lparr>ttype = DIRT, durability = 5, maxDurability = 5\<rparr>
   \<and> (0::real) \<le> 1 / 2 \<and> (1::real) / 2 < 1
   \<and> walk_length (1 / 2) = 40 \<and> disc_radius (1 / 2) = 3
   \<and> wf_grid fill_grid
   \<and> tile_at (carve_disc 20 15 2 fill_grid) 16 21 = air_tile
   \<and> tile_at (carve_disc 20 15 2 fill_grid) 17 22 = \<lparr>ttype = STONE, durability = 15, maxDurability = 15\<rparr>
   \<and> tile_at (fst (caves 15 half 0 fill_grid)) 7 3 = \<lparr>ttype = DIRT, durability = 5, maxDurability = 5\<rparr>
   \<and> unit_draws half
   \<and> walk_discs 40 20 37 half 3 = replicate 40 (20, 37, 3)
   \<and> snd (worm 40 20 37 half 3 fill_grid) = 123
   \<and> snd (snd (walk_discs 40 20 37 half 3 ! 5)) = 3
   \<and> hd (walk_discs 40 20 37 half 3) = (20, 37, 3)
   \<and> walk_discs 20 0 15 gen_draws 3 = [(0, 15, 2)]
   \<and> \<not> in_region (- 2) 14
   \<and> tile_at (fst (worm 40 20 37 half 3 fill_grid)) 38 21 = air_tile
   \<and> tile_at (fst (worm 40 20 37 half 3 fill_grid)) 38 21 \<noteq> tile_at fill_grid 38 21
   \<and> tile_at (fst (worm 40 20 37 half 3 fill_grid)) 41 20 = \<lparr>ttype = STONE, durability = 15, maxDurability = 15\<rparr>
   \<and> cave_walks 15 half 0 = replicate 15 (replicate 40 (20, 37, 3))
   \<and> snd (caves 15 half 0 fill_grid) = 1845
   \<and> tile_at (fst (caves 15 half 0 fill_grid)) 38 21 = air_tile
   \<and> cave_walks 15 half 0 ! 2 = replicate 40 (20, 37, 3)
   \<and> list_all (\<lambda>ds. ds \<noteq> [] \<and> length ds \<le> 59 \<and> list_all walk_disc_ok ds) (cave_walks 15 half 0)
   \<and> unit_draws gen_draws
   \<and> generate_grid 15 gen_draws \<noteq> None
   \<and> tile_at (fst (the (generate_grid 15 gen_draws))) 7 3 = \<lparr>ttype = DIRT, durability = 5, maxDurability = 5\<rparr>
   \<and> ttype (tile_at (fst (the (generate_grid 15 gen_draws))) 15 0) = AIR
   \<and> card (ore_cells SHARD (fst (the (generate_grid 15 gen_draws)))) = 15
   \<and> card (ore_cells GOLD (fst (the (generate_grid 15 gen_draws)))) = 5
   \<and> card (ore_cells DIAMOND (fst (the (generate_grid 15 gen_draws)))) = 3"
proof -
  have i: "in_grid 7 3" "in_grid 16 21" "in_grid 17 22" "in_grid 38 21" "in_grid 41 20" "in_grid 15 0"
    by (simp_all add: in_grid_def GRID_WIDTH_def GRID_HEIGHT_def)
  have f: "tile_at fill_grid 7 3 = \<lparr>ttype = DIRT, durability = 5, maxDurability = 5\<rparr>"
    using world_layers_and_caves [of 7 3, THEN conjunct1] i by (simp add: new_tile_def)
  have l: "walk_length (1 / 2) = 40 \<and> disc_radius (1 / 2) = 3"
    by (simp add: walk_length_def disc_radius_def)
  have w: "wf_grid fill_grid" by (rule wf_fill_grid)
  have h1: "hypot 1 1 \<le> 2"
    unfolding hypot_def by (rule real_le_lsqrt) simp_all
  have h2: "\<not> hypot 2 2 \<le> 2"
    unfolding hypot_def not_le by (rule real_less_rsqrt) simp
  have h3: "hypot 1 1 \<le> 3"
    unfolding hypot_def by (rule real_le_lsqrt) simp_all
  have h4: "\<not> hypot 0 4 \<le> 3"
    unfolding hypot_def not_le by (rule real_less_rsqrt) simp
  have r3: "disc_radius (half m) = 3" for m
    by (simp add: half_def disc_radius_def)
  have d1: "tile_at (carve_disc 20 15 2 fill_grid) 16 21 = air_tile"
    using world_layers_and_caves [where y = 16 and x = 21 and g = fill_grid and cx = 20 and cy = 15 and radius = 2,
        THEN conjunct2, THEN conjunct2, THEN conjunct2, THEN conjunct1] w i h1
    by simp
  have s: "tile_at fill_grid 17 22 = \<lparr>ttype = STONE, durability = 15, maxDurability = 15\<rparr>"
    using world_layers_and_caves [of 17 22, THEN conjunct1] i by (simp add: new_tile_def)
  have s2: "tile_at fill_grid 38 21 = \<lparr>ttype = STONE, durability = 15, maxDurability = 15\<rparr>"
    using world_layers_and_caves [of 38 21, THEN conjunct1] i by (simp add: new_tile_def)
  have s3: "tile_at fill_grid 41 20 = \<lparr>ttype = STONE, durability = 15, maxDurability = 15\<rparr>"
    using world_layers_and_caves [of 41 20, THEN conjunct1] i by (simp add: new_tile_def)
  have d2: "tile_at (carve_disc 20 15 2 fill_grid) 17 22 = \<lparr>ttype = STONE, durability = 15, maxDurability = 15\<rparr>"
    using world_layers_and_caves [where y = 17 and x = 22 and g = fill_grid and cx = 20 and cy = 15 and radius = 2,
        THEN conjunct2, THEN conjunct2, THEN conjunct2, THEN conjunct1] w i h2 s
    by simp
  have d3: "tile_at (fst (caves 15 half 0 fill_grid)) 7 3 = \<lparr>ttype = DIRT, durability = 5, maxDurability = 5\<rparr>"
    using world_layers_and_caves [where y = 7 and x = 3 and g = fill_grid and rnd = half and k = 0 and w = 15,
        THEN conjunct2, THEN conjunct2, THEN conjunct2, THEN conjunct2, THEN conjunct1] w i f
    by simp
  have hw: "walk_discs 40 20 37 half 3 = replicate 40 (20, 37, 3)"
    by (rule half_walk)
  have e7: "snd (worm 40 20 37 half 3 fill_grid) = 123"
    using world_layers_and_caves [where n = 40 and cx = 20 and cy = 37 and rnd = half and k = 3 and g = fill_grid,
        THEN conjunct2, THEN conjunct2, THEN conjunct2, THEN conjunct2, THEN conjunct2,
        THEN conjunct2, THEN conjunct1]
    by (simp add: hw del: worm.simps)
  have e9: "snd (snd (walk_discs 40 20 37 half 3 ! 5)) = 3"
    using world_layers_and_caves [where n = 40 and cx = 20 and cy = 37 and rnd = half and k = 3 and j = 5,
        THEN conjunct2, THEN conjunct2, THEN conjunct2, THEN conjunct2, THEN conjunct2,
        THEN conjunct2, THEN conjunct2, THEN conjunct2, THEN conjunct1]
    by (simp add: hw r3 del: walk_discs.simps)
  have e10: "hd (walk_discs 40 20 37 half 3) = (20, 37, 3)"
    using world_layers_and_caves [where n = 40 and cx = 20 and cy = 37 and rnd = half and k = 3,
        THEN conjunct2, THEN conjunct2, THEN conjunct2, THEN conjunct2, THEN conjunct2,
        THEN conjunct2, THEN conjunct2, THEN conjunct2, THEN conjunct2, THEN conjunct1]
    by (simp add: r3 del: walk_discs.simps)
  have gw: "walk_discs 20 0 15 gen_draws 3 = [(0, 15, 2)]"
    by (rule gen_walk)
  have e11: "\<not> in_region (- 2) 14"
    using world_layers_and_caves [where n = 20 and cx = 0 and cy = 15 and rnd = gen_draws and k = 3,
        THEN conjunct2, THEN conjunct2, THEN conjunct2, THEN conjunct2, THEN conjunct2,
        THEN conjunct2, THEN conjunct2, THEN conjunct2, THEN conjunct2, THEN conjunct2,
        THEN conjunct1]
    by (simp add: gw gen_draws_def del: walk_discs.simps)
  have e12: "tile_at (fst (worm 40 20 37 half 3 fill_grid)) 38 21 = air_tile"
    using world_layers_and_caves [where n = 40 and cx = 20 and cy = 37 and rnd = half and k = 3 and g = fill_grid
          and y = 38 and x = 21,
        THEN conjunct2, THEN conjunct2, THEN conjunct2, THEN conjunct2, THEN conjunct2,
        THEN conjunct2, THEN conjunct2, THEN conjunct2, THEN conjunct2, THEN conjunct2,
        THEN conjunct2, THEN conjunct1] w i h3
    by (simp add: r3 del: worm.simps)
  have ne: "tile_at (fst (worm 40 20 37 half 3 fill_grid)) 38 21 \<noteq> tile_at fill_grid 38 21"
    unfolding e12 s2 by (simp add: air_tile_def)
  have e13: "(10::int) \<le> 38 \<and> \<bar>(21::int) - 20\<bar> \<le> 2 * int 40 + 1 \<and> \<bar>(38::int) - 37\<bar> \<le> int 40 + 2"
    using world_layers_and_caves [where n = 40 and cx = 20 and cy = 37 and rnd = half and k = 3 and g = fill_grid
          and y = 38 and x = 21,
        THEN conjunct2, THEN conjunct2, THEN conjunct2, THEN conjunct2, THEN conjunct2,
        THEN conjunct2, THEN conjunct2, THEN conjunct2, THEN conjunct2, THEN conjunct2,
        THEN conjunct2, THEN conjunct2, THEN conjunct1] w i(4) ne half_unit
    by blast
  have e14: "tile_at (fst (worm 40 20 37 half 3 fill_grid)) 41 20 = \<lparr>ttype = STONE, durability = 15, maxDurability = 15\<rparr>"
    using world_layers_and_caves [where n = 40 and cx = 20 and cy = 37 and rnd = half and k = 3 and g = fill_grid
          and y = 41 and x = 20,
        THEN conjunct2, THEN conjunct2, THEN conjunct2, THEN conjunct2, THEN conjunct2,
        THEN conjunct2, THEN conjunct2, THEN conjunct2, THEN conjunct2, THEN conjunct2,
        THEN conjunct2, THEN conjunct2, THEN conjunct2, THEN conjunct1] w i h4 s3
    by (simp add: hw in_disc_def list_ex_iff del: worm.simps)
  have cw: "cave_walks 15 half 0 = replicate 15 (replicate 40 (20, 37, 3))"
    by (rule half_walks)
  have e15: "snd (caves 15 half 0 fill_grid) = 1845"
    using world_layers_and_caves [where w = 15 and rnd = half and k = 0 and g = fill_grid,
        THEN conjunct2, THEN conjunct2, THEN conjunct2, THEN conjunct2, THEN conjunct2,
        THEN conjunct2, THEN conjunct2, THEN conjunct2, THEN conjunct2, THEN conjunct2,
        THEN conjunct2, THEN conjunct2, THEN conjunct2, THEN conjunct2, THEN conjunct1]
    by (simp add: cw length_concat sum_list_replicate del: caves.simps)
  have e16: "tile_at (fst (caves 15 half 0 fill_grid)) 38 21 = air_tile"
    using world_layers_and_caves [where w = 15 and rnd = half and k = 0 and g = fill_grid and y = 38 and x = 21,
        THEN conjunct2, THEN conjunct2, THEN conjunct2, THEN conjunct2, THEN conjunct2,
        THEN conjunct2, THEN conjunct2, THEN conjunct2, THEN conjunct2, THEN conjunct2,
        THEN conjunct2, THEN conjunct2, THEN conjunct2, THEN conjunct2, THEN conjunct2,
        THEN conjunct1] w i h3
    by (simp add: cw in_disc_def list_ex_iff del: caves.simps)
  have e18: "cave_walks 15 half 0 ! 2 = replicate 40 (20, 37, 3)"
    using world_layers_and_caves [where w = 15 and rnd = half and k = 0 and i = 2,
        THEN conjunct2, THEN conjunct2, THEN conjunct2, THEN conjunct2, THEN conjunct2,
        THEN conjunct2, THEN conjunct2, THEN conjunct2, THEN conjunct2, THEN conjunct2,
        THEN conjunct2, THEN conjunct2, THEN conjunct2, THEN conjunct2, THEN conjunct2,
        THEN conjunct2, THEN conjunct2, THEN conjunct1]
    by (simp add: cw half_walk del: walk_discs.simps)
  have e19: "list_all (\<lambda>ds. ds \<noteq> [] \<and> length ds \<le> 59 \<and> list_all walk_disc_ok ds) (cave_walks 15 half 0)"
    using world_layers_and_caves [where w = 15 and rnd = half and k = 0,
        THEN conjunct2, THEN conjunct2, THEN conjunct2, THEN conjunct2, THEN conjunct2,
        THEN conjunct2, THEN conjunct2, THEN conjunct2, THEN conjunct2, THEN conjunct2,
        THEN conjunct2, THEN conjunct2, THEN conjunct2, THEN conjunct2, THEN conjunct2,
        THEN conjunct2, THEN conjunct2, THEN conjunct2, THEN conjunct1] half_unit
    by blast
  obtain gg where gg: "generate_grid 15 gen_draws = Some (gg, 136)"
    using generation_returns by blast
  have e6: "tile_at gg 7 3 = \<lparr>ttype = DIRT, durability = 5, maxDurability = 5\<rparr>"
    using world_layers_and_caves [where y = 7 and x = 3 and rnd = gen_draws and fuel = 15
          and g' = gg and k' = 136,
        THEN conjunct2, THEN conjunct2, THEN conjunct2, THEN conjunct2, THEN conjunct2,
        THEN conjunct1]
      gen_draws_unit gg i f
    by simp
  have e20: "card (ore_cells SHARD gg) = 15 \<and> card (ore_cells GOLD gg) = 5 \<and> card (ore_cells DIAMOND gg) = 3"
    using world_layers_and_caves [where rnd = gen_draws and fuel = 15 and g' = gg and k' = 136,
        THEN conjunct2, THEN conjunct2, THEN conjunct2, THEN conjunct2, THEN conjunct2,
        THEN conjunct2, THEN conjunct2, THEN conjunct2, THEN conjunct2, THEN conjunct2,
        THEN conjunct2, THEN conjunct2, THEN conjunct2, THEN conjunct2, THEN conjunct2,
        THEN conjunct2, THEN conjunct2, THEN conjunct2, THEN conjunct2, THEN conjunct1]
      gen_draws_unit gg
    by blast
  have e21: "ttype (tile_at gg 15 0) = AIR"
    using world_layers_and_caves [where rnd = gen_draws and fuel = 15 and g' = gg and k' = 136 and y = 15 and x = 0,
        THEN conjunct2, THEN conjunct2, THEN conjunct2, THEN conjunct2, THEN conjunct2,
        THEN conjunct2, THEN conjunct2, THEN conjunct2, THEN conjunct2, THEN conjunct2,
        THEN conjunct2, THEN conjunct2, THEN conjunct2, THEN conjunct2, THEN conjunct2,
        THEN conjunct2, THEN conjunct2, THEN conjunct2, THEN conjunct2, THEN conjunct2]
      gen_draws_unit gg i(6) gen_disc
    by simp
  show ?thesis
    using i f l w d1 d2 d3 half_unit hw e7 e9 e10 gw e11 e12 ne e14 cw e15 e16 e18 e19
      gen_draws_unit gg e6 e20 e21
    by simp
qed

end
